theory Spec2Isabelle
  imports Main "HOL-Library.AList" "HOL-Library.Char_ord" "HOL-Library.List_Lexorder"
    "HOL-Library.Sublist"
begin

section \<open>Data model of \<open>planb/create_cluster.py\<close>\<close>

text \<open>
  Regions, addresses, CIDR blocks and provider handles are Python strings. A dictionary
  whose iteration order the code relies on is an association list in insertion order;
  \<open>AList.update\<close> is Python's \<open>d[k] = v\<close> (replace in place, or append a new key).
\<close>

type_synonym region = string
type_synonym ip = string

datatype exn =
    IpAddressPoolDepletedException string
  | ZeroDivisionError
  | IndexError
  | KeyError string
  | ClientError string
  | Exception string

text \<open>
  One entry of \<open>describe_subnets()['Subnets']\<close>. The provider leaves the key \<open>Tags\<close> out
  for an untagged subnet, hence the option.
\<close>

record subnet =
  SubnetId :: string
  CidrBlock :: string
  AvailabilityZone :: string
  Tags :: "(string \<times> string) list option"

text \<open>
  The address dictionary built by \<open>allocate_ip_addresses\<close>: keys \<open>PrivateIp\<close> and
  \<open>_defaultIp\<close> always, \<open>PublicIp\<close> and \<open>AllocationId\<close> only with Elastic IPs.
\<close>

record address =
  PrivateIp :: ip
  defaultIp :: ip
  PublicIp :: "ip option"
  AllocationId :: "string option"

text \<open>
  What a procedure that can block forever does: \<open>launch_instance\<close> polls the instance
  state in a \<open>while True\<close> loop without a timeout.
\<close>

datatype 'a outcome = Returns 'a | Raises exn | Hangs

text \<open>Ingress rules of \<open>setup_security_groups\<close>.\<close>

datatype ingress_rule =
    TcpFromCidr nat string
  | AllFromGroup string
  | TcpFromGroup nat string

text \<open>
  The provider calls that create, remove or pace something, in the order the run issues
  them. \<open>AllocateAddress\<close> and \<open>CreateSecurityGroup\<close> are logged when the call has
  returned its handle; \<open>LaunchInstance\<close>, \<open>DeleteSecurityGroup\<close> and \<open>ReleaseAddress\<close>
  when the call is made. \<open>Sleep n\<close> is \<open>time.sleep(n)\<close> in the two launch loops.
\<close>

datatype event =
    AllocateAddress region string
  | SetupSnsTopics
  | UpsertRecords region
  | CreateSecurityGroup region string
  | LaunchInstance region address bool
  | Sleep nat
  | PrintSuccessMessage
  | PrintFailureMessage
  | DeleteSecurityGroup region string
  | ReleaseAddress region string

text \<open>
  A regional \<open>boto3\<close> EC2 client, as far as the orchestrator uses it. Each field is the
  answer of the provider: \<open>Inl e\<close> (or \<open>Some e\<close> for a call without a result) when the
  call raises \<open>e\<close>. \<open>describe_instances\<close> answers the filter on
  \<open>private-ip-address\<close>: \<open>Inr True\<close> when \<open>resp['Reservations']\<close> is non-empty.
  \<open>allocate_address\<close> is indexed by the number of earlier calls on this client and
  returns \<open>(PublicIp, AllocationId)\<close>. \<open>images_filter\<close> lists \<open>(name, id)\<close> of the
  images that match the Taupage filters; \<open>describe_vpcs\<close> lists VPC ids;
  \<open>describe_security_groups\<close> looks a group up by name and lists group ids.
\<close>

record ec2_client =
  describe_instances :: "ip \<Rightarrow> exn + bool"
  allocate_address :: "nat \<Rightarrow> exn + (ip \<times> string)"
  describe_subnets :: "exn + subnet list"
  images_filter :: "exn + (string \<times> string) list"
  describe_vpcs :: "exn + string list"
  create_security_group :: "string \<Rightarrow> string \<Rightarrow> exn + string"
  create_tags :: "string \<Rightarrow> exn option"
  describe_security_groups :: "string \<Rightarrow> exn + string list"
  authorize_security_group_ingress :: "string \<Rightarrow> ingress_rule list \<Rightarrow> exn option"
  delete_security_group :: "string \<Rightarrow> exn option"
  release_address :: "string \<Rightarrow> exn option"

text \<open>
  Everything outside the module. \<open>iter_hosts\<close> is
  \<open>netaddr.IPNetwork(cidr).iter_hosts()\<close> as a list. \<open>launch_instance\<close> stands for the
  procedure of that name (volume, \<open>run_instances\<close>, tags, the poll loop, address
  association, alarm) by its outcome alone. \<open>setup_sns_topics_for_alarm\<close> and
  \<open>ensure_instance_profile\<close> are imported from \<open>.common\<close>. \<open>before_try\<close> is the outcome
  of \<open>validate_artifact_version\<close>, \<open>read_environment\<close> and \<open>generate_certificate\<close>,
  which run before the \<open>try\<close> block and touch no cloud resource.
\<close>

record world =
  boto3_ec2 :: "region \<Rightarrow> ec2_client"
  iter_hosts :: "string \<Rightarrow> ip list"
  list_hosted_zones_by_name :: "string \<Rightarrow> exn + (string \<times> string) list"
  change_resource_record_sets :: "string \<Rightarrow> string \<Rightarrow> string list \<Rightarrow> exn option"
  setup_sns_topics_for_alarm :: "region list \<Rightarrow> exn + (region \<times> string) list"
  ensure_instance_profile :: "string \<Rightarrow> exn option"
  launch_instance ::
    "region \<Rightarrow> address \<Rightarrow> string \<Rightarrow> subnet \<Rightarrow> string \<Rightarrow> bool \<Rightarrow> unit outcome"
  before_try :: "exn option"

text \<open>
  The \<open>options\<close> dictionary: \<open>options['k']\<close> is the field \<open>opt_k\<close>. The first six come
  from the command line; the others are added by \<open>create_cluster\<close> with
  \<open>dict(options, k=v)\<close>.
\<close>

record options =
  opt_cluster_name :: string
  opt_cluster_size :: int
  opt_regions :: "region list"
  opt_use_dmz :: bool
  opt_hosted_zone :: "string option"
  opt_sns_topic :: "string option"
  opt_sns_email :: "string option"
  opt_seed_count :: int
  opt_seed_nodes :: "(region \<times> address list) list"
  opt_node_ips :: "(region \<times> address list) list"
  opt_security_groups :: "(region \<times> string) list"
  opt_taupage_amis :: "(region \<times> string \<times> string) list"
  opt_subnets :: "(region \<times> subnet list) list"

text \<open>
  What a run leaves behind: the calls it issued, the two dictionaries of the session
  (\<open>node_ips\<close> and \<open>security_groups\<close>) as they are when the run ends, and how it ended.
\<close>

record run =
  trace :: "event list"
  topology :: "(region \<times> address list) list"
  groups :: "(region \<times> string) list"
  result :: "unit outcome"

section \<open>Python containers\<close>

text \<open>\<open>d[k].append(v)\<close> on a \<open>defaultdict(list)\<close>: a missing key starts as \<open>[]\<close>.\<close>

definition dict_append :: "('k \<times> 'v list) list \<Rightarrow> 'k \<Rightarrow> 'v \<Rightarrow> ('k \<times> 'v list) list" where
  "dict_append d k v =
     AList.update k ((case map_of d k of None \<Rightarrow> [] | Some vs \<Rightarrow> vs) @ [v]) d"

text \<open>\<open>d[k]\<close> read on a \<open>defaultdict(list)\<close>.\<close>

definition dict_get_list :: "('k \<times> 'v list) list \<Rightarrow> 'k \<Rightarrow> 'v list" where
  "dict_get_list d k = (case map_of d k of None \<Rightarrow> [] | Some vs \<Rightarrow> vs)"

text \<open>\<open>xs[0:n]\<close>: a negative bound counts from the end.\<close>

definition slice_to :: "'a list \<Rightarrow> int \<Rightarrow> 'a list" where
  "slice_to xs n = (if n < 0 then take (length xs - nat (- n)) xs else take (nat n) xs)"

text \<open>Python truthiness of an option that is \<open>None\<close> or a string.\<close>

definition truthy :: "string option \<Rightarrow> bool" where
  "truthy v = (case v of None \<Rightarrow> False | Some t \<Rightarrow> t \<noteq> [])"

section \<open>Address allocator\<close>

text \<open>
  \<open>try_next_address\<close>: \<open>next(ips)\<close> on the subnet's host iterator; the iterator is
  returned advanced. \<open>StopIteration\<close> becomes \<open>IpAddressPoolDepletedException\<close>.
\<close>

definition try_next_address :: "ip list \<Rightarrow> subnet \<Rightarrow> exn + (ip \<times> ip list)" where
  "try_next_address ips subnet =
     (case ips of
        [] \<Rightarrow> Inl (IpAddressPoolDepletedException (CidrBlock subnet))
      | a # rest \<Rightarrow> Inr (a, rest))"

text \<open>The inner \<open>for _ in range(10)\<close> loop, with the count as a parameter.\<close>

fun skip_addresses :: "nat \<Rightarrow> ip list \<Rightarrow> subnet \<Rightarrow> exn + ip list" where
  "skip_addresses 0 ips subnet = Inr ips"
| "skip_addresses (Suc n) ips subnet =
     (case try_next_address ips subnet of
        Inl e \<Rightarrow> Inl e
      | Inr (a, rest) \<Rightarrow> skip_addresses n rest subnet)"

text \<open>\<open>for idx, ips in enumerate(network_ips)\<close>: ten addresses are dropped per subnet.\<close>

fun skip_reserved :: "subnet list \<Rightarrow> nat \<Rightarrow> ip list list \<Rightarrow> exn + ip list list" where
  "skip_reserved subnets idx [] = Inr []"
| "skip_reserved subnets idx (ips # others) =
     (if idx < length subnets then
        (case skip_addresses 10 ips (subnets ! idx) of
           Inl e \<Rightarrow> Inl e
         | Inr ips' \<Rightarrow>
             (case skip_reserved subnets (Suc idx) others of
                Inl e \<Rightarrow> Inl e
              | Inr others' \<Rightarrow> Inr (ips' # others')))
      else Inl IndexError)"

text \<open>
  The \<open>while i < cluster_size\<close> loop of the generator. The result is the list of
  addresses yielded, in order, and the exception that ended the generator, if any.
  Every iteration consumes one address of a finite iterator, which is the measure.
\<close>

function allocation_loop ::
  "ec2_client \<Rightarrow> subnet list \<Rightarrow> int \<Rightarrow> ip list list \<Rightarrow> nat \<Rightarrow> ip list \<times> exn option" where
  "allocation_loop ec2 subnets cluster_size network_ips i =
     (if int i < cluster_size then
        (if length subnets = 0 then ([], Some ZeroDivisionError)
         else
           (let idx = i mod length subnets in
            if idx < length network_ips then
              (case try_next_address (network_ips ! idx) (subnets ! idx) of
                 Inl e \<Rightarrow> ([], Some e)
               | Inr (a, rest) \<Rightarrow>
                   (case describe_instances ec2 a of
                      Inl e \<Rightarrow> ([], Some e)
                    | Inr True \<Rightarrow>
                        allocation_loop ec2 subnets cluster_size (network_ips[idx := rest]) i
                    | Inr False \<Rightarrow>
                        (case allocation_loop ec2 subnets cluster_size
                                (network_ips[idx := rest]) (Suc i) of
                           (ys, r) \<Rightarrow> (a # ys, r))))
            else ([], Some IndexError)))
      else ([], None))"
  by pat_completeness auto

termination
proof -
  have less: "idx < length xss \<Longrightarrow> xss ! idx = a # rest \<Longrightarrow>
      sum_list (map length (xss[idx := rest])) < sum_list (map length xss)"
    for idx a rest and xss :: "ip list list"
    by (induction xss arbitrary: idx) (auto simp: nth_Cons split: nat.splits)
  show ?thesis
    by (relation "measure (\<lambda>(ec2, subnets, cluster_size, network_ips, i).
                    sum_list (map length network_ips))")
       (auto simp: try_next_address_def less split: list.splits)
qed

declare allocation_loop.simps [simp del]

text \<open>
  \<open>generate_private_ip_addresses\<close>. \<open>hosts\<close> is
  \<open>netaddr.IPNetwork(cidr).iter_hosts()\<close> as a list: the library is not part of the
  repository, so the host sequence of a CIDR block is a parameter.
\<close>

definition generate_private_ip_addresses ::
  "(string \<Rightarrow> ip list) \<Rightarrow> ec2_client \<Rightarrow> subnet list \<Rightarrow> int \<Rightarrow> ip list \<times> exn option" where
  "generate_private_ip_addresses hosts ec2 subnets cluster_size =
     (let network_ips = map (\<lambda>s. hosts (CidrBlock s)) subnets in
      case skip_reserved subnets 0 network_ips of
        Inl e \<Rightarrow> ([], Some e)
      | Inr network_ips' \<Rightarrow> allocation_loop ec2 subnets cluster_size network_ips' 0)"

text \<open>
  The body of \<open>for ip in generate_private_ip_addresses(...)\<close> in
  \<open>allocate_ip_addresses\<close>, run over the addresses the generator yields. \<open>n\<close> counts
  the calls of \<open>allocate_address\<close> made on this client.
\<close>

fun take_addresses ::
  "ec2_client \<Rightarrow> region \<Rightarrow> bool \<Rightarrow> nat \<Rightarrow> ip list \<Rightarrow> (region \<times> address list) list \<Rightarrow>
     event list \<times> (region \<times> address list) list \<times> exn option" where
  "take_addresses ec2 region take_elastic_ips n [] node_ips = ([], node_ips, None)"
| "take_addresses ec2 region take_elastic_ips n (a # ips) node_ips =
     (if take_elastic_ips then
        (case allocate_address ec2 n of
           Inl e \<Rightarrow> ([], node_ips, Some e)
         | Inr (public, allocation) \<Rightarrow>
             (case take_addresses ec2 region take_elastic_ips (Suc n) ips
                     (dict_append node_ips region
                        \<lparr>PrivateIp = a, defaultIp = public, PublicIp = Some public,
                         AllocationId = Some allocation\<rparr>) of
                (evs, node_ips', r) \<Rightarrow> (AllocateAddress region allocation # evs, node_ips', r)))
      else
        take_addresses ec2 region take_elastic_ips n ips
          (dict_append node_ips region
             \<lparr>PrivateIp = a, defaultIp = a, PublicIp = None, AllocationId = None\<rparr>))"

text \<open>
  \<open>allocate_ip_addresses\<close>, over \<open>region_subnets.items()\<close>. The generator is lazy: the
  addresses it yields before it raises have been processed when its exception arrives,
  and it is not resumed after \<open>allocate_address\<close> has raised.
\<close>

fun allocate_ip_addresses ::
  "world \<Rightarrow> (region \<times> subnet list) list \<Rightarrow> int \<Rightarrow> (region \<times> address list) list \<Rightarrow> bool \<Rightarrow>
     event list \<times> (region \<times> address list) list \<times> exn option" where
  "allocate_ip_addresses w [] cluster_size node_ips take_elastic_ips = ([], node_ips, None)"
| "allocate_ip_addresses w ((region, subnets) # region_subnets) cluster_size node_ips
       take_elastic_ips =
     (let ec2 = boto3_ec2 w region in
      case generate_private_ip_addresses (iter_hosts w) ec2 subnets cluster_size of
        (ips, raised) \<Rightarrow>
          (case take_addresses ec2 region take_elastic_ips 0 ips node_ips of
             (evs, node_ips', Some e) \<Rightarrow> (evs, node_ips', Some e)
           | (evs, node_ips', None) \<Rightarrow>
               (case raised of
                  Some e \<Rightarrow> (evs, node_ips', Some e)
                | None \<Rightarrow>
                    (case allocate_ip_addresses w region_subnets cluster_size node_ips'
                            take_elastic_ips of
                       (evs', node_ips'', r) \<Rightarrow> (evs @ evs', node_ips'', r)))))"

text \<open>The addresses of a host sequence that the provider reports as not in use.\<close>

abbreviation unused :: "ec2_client \<Rightarrow> ip list \<Rightarrow> ip list" where
  "unused ec2 \<equiv> filter (\<lambda>a. describe_instances ec2 a = Inr False)"

section \<open>Seed selector\<close>

definition pick_seed_node_ips ::
  "(region \<times> address list) list \<Rightarrow> int \<Rightarrow> (region \<times> address list) list" where
  "pick_seed_node_ips node_ips seed_count =
     fold (\<lambda>(region, ips) seed_nodes. AList.update region (slice_to ips seed_count) seed_nodes)
       node_ips []"

section \<open>Resource lookups and provisioners\<close>

text \<open>
  \<open>get_subnets\<close>: the inner loops append the subnet once per \<open>Name\<close> tag whose text
  starts with the prefix; a region gets a key only when something is appended.
\<close>

fun append_matching ::
  "string \<Rightarrow> region \<Rightarrow> subnet list \<Rightarrow> (region \<times> subnet list) list \<Rightarrow>
     exn + (region \<times> subnet list) list" where
  "append_matching prefix_filter region [] subnets = Inr subnets"
| "append_matching prefix_filter region (s # sorted_subnets) subnets =
     (case Tags s of
        None \<Rightarrow> Inl (KeyError ''Tags'')
      | Some tags \<Rightarrow>
          append_matching prefix_filter region sorted_subnets
            (fold (\<lambda>tag acc.
                     if fst tag = ''Name'' \<and> prefix prefix_filter (snd tag)
                     then dict_append acc region s else acc)
               tags subnets))"

fun get_subnets_from ::
  "world \<Rightarrow> string \<Rightarrow> region list \<Rightarrow> (region \<times> subnet list) list \<Rightarrow>
     exn + (region \<times> subnet list) list" where
  "get_subnets_from w prefix_filter [] subnets = Inr subnets"
| "get_subnets_from w prefix_filter (region # regions) subnets =
     (case describe_subnets (boto3_ec2 w region) of
        Inl e \<Rightarrow> Inl e
      | Inr resp \<Rightarrow>
          (case append_matching prefix_filter region (sort_key AvailabilityZone resp) subnets of
             Inl e \<Rightarrow> Inl e
           | Inr subnets' \<Rightarrow> get_subnets_from w prefix_filter regions subnets'))"

definition get_subnets ::
  "world \<Rightarrow> string \<Rightarrow> region list \<Rightarrow> exn + (region \<times> subnet list) list" where
  "get_subnets w prefix_filter regions = get_subnets_from w prefix_filter regions []"

text \<open>\<open>find_taupage_amis\<close>: the image with the greatest name, per region.\<close>

fun find_taupage_amis_from ::
  "world \<Rightarrow> region list \<Rightarrow> (region \<times> string \<times> string) list \<Rightarrow>
     exn + (region \<times> string \<times> string) list" where
  "find_taupage_amis_from w [] amis = Inr amis"
| "find_taupage_amis_from w (region # regions) amis =
     (case images_filter (boto3_ec2 w region) of
        Inl e \<Rightarrow> Inl e
      | Inr images \<Rightarrow>
          (if images = [] then Inl (Exception ''No Taupage AMI found'')
           else find_taupage_amis_from w regions
                  (AList.update region (last (sort_key fst images)) amis)))"

definition find_taupage_amis ::
  "world \<Rightarrow> region list \<Rightarrow> exn + (region \<times> string \<times> string) list" where
  "find_taupage_amis w regions = find_taupage_amis_from w regions []"

definition hostname_from_private_ip :: "region \<Rightarrow> ip \<Rightarrow> string" where
  "hostname_from_private_ip region a =
     ''ip-'' @ map (\<lambda>c. if c = CHR ''.'' then CHR ''-'' else c) a @ ''.'' @ region
       @ ''.compute.internal.''"

definition make_dns_records :: "region \<Rightarrow> address list \<Rightarrow> string list" where
  "make_dns_records region ips =
     map (\<lambda>host. ''1 1 9042 '' @ host) (map (\<lambda>a. hostname_from_private_ip region (PrivateIp a)) ips)"

fun upsert_records ::
  "world \<Rightarrow> string \<Rightarrow> string \<Rightarrow> string \<Rightarrow> (region \<times> address list) list \<Rightarrow>
     event list \<times> exn option" where
  "upsert_records w cluster_name hosted_zone zone_id [] = ([], None)"
| "upsert_records w cluster_name hosted_zone zone_id ((region, ips) # node_ips) =
     (case change_resource_record_sets w zone_id
             (''_'' @ cluster_name @ ''-'' @ region @ ''._tcp.'' @ hosted_zone)
             (make_dns_records region ips) of
        Some e \<Rightarrow> ([], Some e)
      | None \<Rightarrow>
          (case upsert_records w cluster_name hosted_zone zone_id node_ips of
             (evs, r) \<Rightarrow> (UpsertRecords region # evs, r)))"

text \<open>\<open>setup_dns_records\<close>: the last listed zone with the configured name is used.\<close>

definition setup_dns_records ::
  "world \<Rightarrow> string \<Rightarrow> string \<Rightarrow> (region \<times> address list) list \<Rightarrow> event list \<times> exn option" where
  "setup_dns_records w cluster_name hosted_zone node_ips =
     (case list_hosted_zones_by_name w hosted_zone of
        Inl e \<Rightarrow> ([], Some e)
      | Inr zones \<Rightarrow>
          (case fold (\<lambda>z zone. if fst z = hosted_zone then Some z else zone) zones None of
             None \<Rightarrow> ([], Some (Exception (''Failed to find Hosted Zone '' @ hosted_zone)))
           | Some z \<Rightarrow> upsert_records w cluster_name hosted_zone (snd z) node_ips))"

text \<open>
  The rules of one group: with \<open>use_dmz\<close>, port 7001 from the public address of every
  node of every region (a node without one is a \<open>KeyError\<close>), then the group itself,
  then SSH from the bastion group when the lookup finds it.
\<close>

fun public_ip_rules :: "address list \<Rightarrow> exn + ingress_rule list" where
  "public_ip_rules [] = Inr []"
| "public_ip_rules (a # ips) =
     (case PublicIp a of
        None \<Rightarrow> Inl (KeyError ''PublicIp'')
      | Some public \<Rightarrow>
          (case public_ip_rules ips of
             Inl e \<Rightarrow> Inl e
           | Inr rules \<Rightarrow> Inr (TcpFromCidr 7001 (public @ ''/32'') # rules)))"

definition odd_rule :: "ec2_client \<Rightarrow> exn + ingress_rule list" where
  "odd_rule ec2 =
     (case describe_security_groups ec2 ''Odd (SSH Bastion Host)'' of
        Inl (ClientError m) \<Rightarrow> Inr []
      | Inl e \<Rightarrow> Inl e
      | Inr [] \<Rightarrow> Inl IndexError
      | Inr (odd_sg # more_sgs) \<Rightarrow> Inr [TcpFromGroup 22 odd_sg])"

fun setup_security_groups_from ::
  "world \<Rightarrow> bool \<Rightarrow> string \<Rightarrow> (region \<times> address list) list \<Rightarrow>
   (region \<times> address list) list \<Rightarrow> (region \<times> string) list \<Rightarrow>
     event list \<times> (region \<times> string) list \<times> exn option" where
  "setup_security_groups_from w dmz cluster_name node_ips [] sgs = ([], sgs, None)"
| "setup_security_groups_from w dmz cluster_name node_ips ((region, ips) # todo) sgs =
     (let ec2 = boto3_ec2 w region in
      case describe_vpcs ec2 of
        Inl e \<Rightarrow> ([], sgs, Some e)
      | Inr [] \<Rightarrow> ([], sgs, Some IndexError)
      | Inr (vpc # vpcs) \<Rightarrow>
          (case create_security_group ec2 cluster_name vpc of
             Inl e \<Rightarrow> ([], sgs, Some e)
           | Inr sg \<Rightarrow>
               (let sgs' = AList.update region sg sgs; created = [CreateSecurityGroup region sg] in
                case create_tags ec2 sg of
                  Some e \<Rightarrow> (created, sgs', Some e)
                | None \<Rightarrow>
                    (case (if dmz then public_ip_rules (concat (map snd node_ips)) else Inr []) of
                       Inl e \<Rightarrow> (created, sgs', Some e)
                     | Inr public_rules \<Rightarrow>
                         (case odd_rule ec2 of
                            Inl e \<Rightarrow> (created, sgs', Some e)
                          | Inr bastion \<Rightarrow>
                              (case authorize_security_group_ingress ec2 sg
                                      (public_rules @ [AllFromGroup sg] @ bastion) of
                                 Some e \<Rightarrow> (created, sgs', Some e)
                               | None \<Rightarrow>
                                   (case setup_security_groups_from w dmz cluster_name node_ips
                                           todo sgs' of
                                      (evs, sgs'', r) \<Rightarrow> (created @ evs, sgs'', r))))))))"

definition setup_security_groups ::
  "world \<Rightarrow> bool \<Rightarrow> string \<Rightarrow> (region \<times> address list) list \<Rightarrow> (region \<times> string) list \<Rightarrow>
     event list \<times> (region \<times> string) list \<times> exn option" where
  "setup_security_groups w dmz cluster_name node_ips sgs =
     setup_security_groups_from w dmz cluster_name node_ips node_ips sgs"

section \<open>Launch sequencer\<close>

text \<open>
  The inner loop of \<open>launch_seed_nodes\<close> for one region; \<open>seeds_launched\<close> is
  threaded through and returned. The arguments of \<open>launch_instance\<close> are evaluated in
  the order of the call: the image lookup, then \<open>subnets[i % len(subnets)]\<close>.
\<close>

fun launch_seeds_in_region ::
  "world \<Rightarrow> options \<Rightarrow> int \<Rightarrow> region \<Rightarrow> string \<Rightarrow> subnet list \<Rightarrow> nat \<Rightarrow> address list \<Rightarrow> nat \<Rightarrow>
     event list \<times> nat \<times> unit outcome" where
  "launch_seeds_in_region w opts total_seed_count region security_group_id subnets i []
       seeds_launched = ([], seeds_launched, Returns ())"
| "launch_seeds_in_region w opts total_seed_count region security_group_id subnets i (a # ips)
       seeds_launched =
     (case map_of (opt_taupage_amis opts) region of
        None \<Rightarrow> ([], seeds_launched, Raises (KeyError region))
      | Some ami \<Rightarrow>
          (if length subnets = 0 then ([], seeds_launched, Raises ZeroDivisionError)
           else
             (case launch_instance w region a (snd ami) (subnets ! (i mod length subnets))
                     security_group_id True of
                Returns u \<Rightarrow>
                  (case launch_seeds_in_region w opts total_seed_count region security_group_id
                          subnets (Suc i) ips (Suc seeds_launched) of
                     (evs, n, r) \<Rightarrow>
                       (LaunchInstance region a True #
                          (if int (Suc seeds_launched) < total_seed_count then [Sleep 60] else [])
                          @ evs, n, r))
              | Raises e \<Rightarrow> ([LaunchInstance region a True], seeds_launched, Raises e)
              | Hangs \<Rightarrow> ([LaunchInstance region a True], seeds_launched, Hangs))))"

fun launch_seed_regions ::
  "world \<Rightarrow> options \<Rightarrow> int \<Rightarrow> (region \<times> address list) list \<Rightarrow> nat \<Rightarrow>
     event list \<times> unit outcome" where
  "launch_seed_regions w opts total_seed_count [] seeds_launched = ([], Returns ())"
| "launch_seed_regions w opts total_seed_count ((region, ips) # seed_nodes) seeds_launched =
     (case map_of (opt_security_groups opts) region of
        None \<Rightarrow> ([], Raises (KeyError region))
      | Some security_group_id \<Rightarrow>
          (case launch_seeds_in_region w opts total_seed_count region security_group_id
                  (dict_get_list (opt_subnets opts) region) 0 ips seeds_launched of
             (evs, n, Returns u) \<Rightarrow>
               (case launch_seed_regions w opts total_seed_count seed_nodes n of
                  (evs', r) \<Rightarrow> (evs @ evs', r))
           | (evs, n, Raises e) \<Rightarrow> (evs, Raises e)
           | (evs, n, Hangs) \<Rightarrow> (evs, Hangs)))"

definition launch_seed_nodes :: "world \<Rightarrow> options \<Rightarrow> event list \<times> unit outcome" where
  "launch_seed_nodes w opts =
     launch_seed_regions w opts (opt_seed_count opts * int (length (opt_regions opts)))
       (opt_seed_nodes opts) 0"

fun launch_normal_in_region ::
  "world \<Rightarrow> options \<Rightarrow> region \<Rightarrow> string \<Rightarrow> subnet list \<Rightarrow> nat \<Rightarrow> address list \<Rightarrow>
     event list \<times> unit outcome" where
  "launch_normal_in_region w opts region security_group_id subnets i [] = ([], Returns ())"
| "launch_normal_in_region w opts region security_group_id subnets i (a # ips) =
     (if int i \<ge> opt_seed_count opts then
        (case map_of (opt_taupage_amis opts) region of
           None \<Rightarrow> ([Sleep 60], Raises (KeyError region))
         | Some ami \<Rightarrow>
             (if length subnets = 0 then ([Sleep 60], Raises ZeroDivisionError)
              else
                (case launch_instance w region a (snd ami) (subnets ! (i mod length subnets))
                        security_group_id False of
                   Returns u \<Rightarrow>
                     (case launch_normal_in_region w opts region security_group_id subnets
                             (Suc i) ips of
                        (evs, r) \<Rightarrow> (Sleep 60 # LaunchInstance region a False # evs, r))
                 | Raises e \<Rightarrow> ([Sleep 60, LaunchInstance region a False], Raises e)
                 | Hangs \<Rightarrow> ([Sleep 60, LaunchInstance region a False], Hangs))))
      else launch_normal_in_region w opts region security_group_id subnets (Suc i) ips)"

fun launch_normal_regions ::
  "world \<Rightarrow> options \<Rightarrow> (region \<times> address list) list \<Rightarrow> event list \<times> unit outcome" where
  "launch_normal_regions w opts [] = ([], Returns ())"
| "launch_normal_regions w opts ((region, ips) # node_ips) =
     (case map_of (opt_security_groups opts) region of
        None \<Rightarrow> ([], Raises (KeyError region))
      | Some security_group_id \<Rightarrow>
          (case launch_normal_in_region w opts region security_group_id
                  (dict_get_list (opt_subnets opts) region) 0 ips of
             (evs, Returns u) \<Rightarrow>
               (case launch_normal_regions w opts node_ips of
                  (evs', r) \<Rightarrow> (evs @ evs', r))
           | (evs, Raises e) \<Rightarrow> (evs, Raises e)
           | (evs, Hangs) \<Rightarrow> (evs, Hangs)))"

definition launch_normal_nodes :: "world \<Rightarrow> options \<Rightarrow> event list \<times> unit outcome" where
  "launch_normal_nodes w opts = launch_normal_regions w opts (opt_node_ips opts)"

section \<open>Rollback and the orchestrator\<close>

text \<open>The first loop of the \<open>except\<close> block.\<close>

fun delete_security_groups ::
  "world \<Rightarrow> (region \<times> string) list \<Rightarrow> event list \<times> exn option" where
  "delete_security_groups w [] = ([], None)"
| "delete_security_groups w ((region, sg) # security_groups) =
     (case delete_security_group (boto3_ec2 w region) sg of
        Some e \<Rightarrow> ([DeleteSecurityGroup region sg], Some e)
      | None \<Rightarrow>
          (case delete_security_groups w security_groups of
             (evs, r) \<Rightarrow> (DeleteSecurityGroup region sg # evs, r)))"

text \<open>
  The second loop, for one region: \<open>ip['PublicIp']\<close> is read for the message, then
  \<open>ip['AllocationId']\<close> for the call.
\<close>

fun release_addresses_in_region ::
  "world \<Rightarrow> region \<Rightarrow> address list \<Rightarrow> event list \<times> exn option" where
  "release_addresses_in_region w region [] = ([], None)"
| "release_addresses_in_region w region (a # ips) =
     (case PublicIp a of
        None \<Rightarrow> ([], Some (KeyError ''PublicIp''))
      | Some public \<Rightarrow>
          (case AllocationId a of
             None \<Rightarrow> ([], Some (KeyError ''AllocationId''))
           | Some allocation \<Rightarrow>
               (case release_address (boto3_ec2 w region) allocation of
                  Some e \<Rightarrow> ([ReleaseAddress region allocation], Some e)
                | None \<Rightarrow>
                    (case release_addresses_in_region w region ips of
                       (evs, r) \<Rightarrow> (ReleaseAddress region allocation # evs, r)))))"

fun release_addresses ::
  "world \<Rightarrow> (region \<times> address list) list \<Rightarrow> event list \<times> exn option" where
  "release_addresses w [] = ([], None)"
| "release_addresses w ((region, ips) # node_ips) =
     (case release_addresses_in_region w region ips of
        (evs, Some e) \<Rightarrow> (evs, Some e)
      | (evs, None) \<Rightarrow>
          (case release_addresses w node_ips of (evs', r) \<Rightarrow> (evs @ evs', r)))"

text \<open>
  The \<open>except\<close> block after \<open>print_failure_message()\<close>, up to the final \<open>raise\<close>:
  \<open>Some e\<close> when a compensating call raises \<open>e\<close>, which then leaves the block in place of
  the re-raise.
\<close>

definition rollback ::
  "world \<Rightarrow> bool \<Rightarrow> (region \<times> address list) list \<Rightarrow> (region \<times> string) list \<Rightarrow>
     event list \<times> exn option" where
  "rollback w dmz node_ips security_groups =
     (case delete_security_groups w security_groups of
        (evs, Some e) \<Rightarrow> (evs, Some e)
      | (evs, None) \<Rightarrow>
          (if dmz then
             (case release_addresses w node_ips of (evs', r) \<Rightarrow> (evs @ evs', r))
           else (evs, None)))"

text \<open>Lines 672 to 677: the two launch phases and the success message.\<close>

definition launch_phases :: "world \<Rightarrow> options \<Rightarrow> event list \<times> unit outcome" where
  "launch_phases w opts =
     (case launch_seed_nodes w opts of
        (evs, Returns u) \<Rightarrow>
          (case launch_normal_nodes w opts of
             (evs', Returns u') \<Rightarrow> (evs @ evs' @ [PrintSuccessMessage], Returns ())
           | (evs', r) \<Rightarrow> (evs @ evs', r))
      | (evs, r) \<Rightarrow> (evs, r))"

text \<open>Lines 626 to 633: the alarm topics, when a topic or an e-mail address is given.\<close>

definition setup_alarm_topics ::
  "world \<Rightarrow> options \<Rightarrow> exn + (event list \<times> (region \<times> string) list)" where
  "setup_alarm_topics w opts =
     (if truthy (opt_sns_topic opts) \<or> truthy (opt_sns_email opts)
      then (case setup_sns_topics_for_alarm w (opt_regions opts) of
              Inl e \<Rightarrow> Inl e
            | Inr topics \<Rightarrow> Inr ([SetupSnsTopics], topics))
      else Inr ([], []))"

text \<open>Lines 635 to 640: the DNS records, when a hosted zone is given.\<close>

definition setup_dns ::
  "world \<Rightarrow> options \<Rightarrow> (region \<times> address list) list \<Rightarrow> event list \<times> exn option" where
  "setup_dns w opts node_ips =
     (case opt_hosted_zone opts of
        None \<Rightarrow> ([], None)
      | Some hosted_zone \<Rightarrow>
          if hosted_zone = [] then ([], None)
          else setup_dns_records w (opt_cluster_name opts) hosted_zone node_ips)"

text \<open>
  The body of the \<open>try\<close> block of \<open>create_cluster\<close>. \<open>generate_taupage_user_data\<close>
  builds a dictionary from the options and calls nothing outside the process; it is left
  out.
\<close>

definition try_block :: "world \<Rightarrow> options \<Rightarrow> run" where
  "try_block w opts =
     (case find_taupage_amis w (opt_regions opts) of
        Inl e \<Rightarrow> \<lparr>trace = [], topology = [], groups = [], result = Raises e\<rparr>
      | Inr taupage_amis \<Rightarrow>
     (case get_subnets w (if opt_use_dmz opts then ''dmz-'' else ''internal-'')
             (opt_regions opts) of
        Inl e \<Rightarrow> \<lparr>trace = [], topology = [], groups = [], result = Raises e\<rparr>
      | Inr subnets \<Rightarrow>
     (case allocate_ip_addresses w subnets (opt_cluster_size opts) [] (opt_use_dmz opts) of
        (ev1, node_ips, Some e) \<Rightarrow>
          \<lparr>trace = ev1, topology = node_ips, groups = [], result = Raises e\<rparr>
      | (ev1, node_ips, None) \<Rightarrow>
     (case setup_alarm_topics w opts of
        Inl e \<Rightarrow> \<lparr>trace = ev1, topology = node_ips, groups = [], result = Raises e\<rparr>
      | Inr (ev2, alarm_topics) \<Rightarrow>
     (case setup_dns w opts node_ips of
        (ev3, Some e) \<Rightarrow>
          \<lparr>trace = ev1 @ ev2 @ ev3, topology = node_ips, groups = [], result = Raises e\<rparr>
      | (ev3, None) \<Rightarrow>
     (case setup_security_groups w (opt_use_dmz opts) (opt_cluster_name opts) node_ips [] of
        (ev4, security_groups, Some e) \<Rightarrow>
          \<lparr>trace = ev1 @ ev2 @ ev3 @ ev4, topology = node_ips, groups = security_groups,
           result = Raises e\<rparr>
      | (ev4, security_groups, None) \<Rightarrow>
     (let seed_count = min (opt_cluster_size opts) 3;
          seed_nodes = pick_seed_node_ips node_ips seed_count
      in
      case ensure_instance_profile w (opt_cluster_name opts) of
        Some e \<Rightarrow>
          \<lparr>trace = ev1 @ ev2 @ ev3 @ ev4, topology = node_ips, groups = security_groups,
           result = Raises e\<rparr>
      | None \<Rightarrow>
          (case launch_phases w
                  (opts\<lparr>opt_seed_count := seed_count, opt_seed_nodes := seed_nodes,
                        opt_node_ips := node_ips, opt_security_groups := security_groups,
                        opt_taupage_amis := taupage_amis, opt_subnets := subnets\<rparr>) of
             (ev5, r) \<Rightarrow>
               \<lparr>trace = ev1 @ ev2 @ ev3 @ ev4 @ ev5, topology = node_ips,
                groups = security_groups, result = r\<rparr>))))))))"

text \<open>
  \<open>create_cluster\<close>: an exception of the \<open>try\<close> block runs the \<open>except\<close> block, which
  ends in the bare \<open>raise\<close> of the exception it caught.
\<close>

definition create_cluster :: "world \<Rightarrow> options \<Rightarrow> run" where
  "create_cluster w opts =
     (case before_try w of
        Some e \<Rightarrow> \<lparr>trace = [], topology = [], groups = [], result = Raises e\<rparr>
      | None \<Rightarrow>
          (let r = try_block w opts in
           case result r of
             Raises e \<Rightarrow>
               (case rollback w (opt_use_dmz opts) (topology r) (groups r) of
                  (evs, None) \<Rightarrow> r\<lparr>trace := trace r @ PrintFailureMessage # evs\<rparr>
                | (evs, Some e') \<Rightarrow>
                    r\<lparr>trace := trace r @ PrintFailureMessage # evs, result := Raises e'\<rparr>)
           | Returns u \<Rightarrow> r
           | Hangs \<Rightarrow> r))"

section \<open>Reading a trace\<close>

text \<open>
  \<open>is_launch True\<close> holds of the launch of a seed node, \<open>is_launch False\<close> of the
  launch of a normal node.
\<close>

fun is_launch :: "bool \<Rightarrow> event \<Rightarrow> bool" where
  "is_launch seed (LaunchInstance region a is_seed) = (is_seed = seed)"
| "is_launch seed e = False"

text \<open>The launches of all seed nodes, region by region, in the order of the dictionary.\<close>

definition seed_launches :: "(region \<times> address list) list \<Rightarrow> event list" where
  "seed_launches seed_nodes =
     concat (map (\<lambda>(region, ips). map (\<lambda>a. LaunchInstance region a True) ips) seed_nodes)"

text \<open>
  A trace in two phases: events that launch nothing, then a part without normal
  launches, then a part without seed launches, then again events that launch nothing;
  when the third part is not empty, the seed launches of the second are \<open>expected\<close>.
\<close>

definition two_phase :: "event list \<Rightarrow> event list \<Rightarrow> bool" where
  "two_phase tr expected =
     (\<exists>pre S N Y. tr = pre @ S @ N @ Y \<and>
        (\<forall>e \<in> set pre. \<forall>b. \<not> is_launch b e) \<and>
        (\<forall>e \<in> set S. \<not> is_launch False e) \<and>
        (\<forall>e \<in> set N. \<not> is_launch True e) \<and>
        (\<forall>e \<in> set Y. \<forall>b. \<not> is_launch b e) \<and>
        (N \<noteq> [] \<longrightarrow> filter (is_launch True) S = expected))"

section \<open>Concrete inputs\<close>

text \<open>
  Two \<open>/28\<close> networks with their fourteen host addresses each, as \<open>iter_hosts\<close> lists
  them, and four subnets: two internal ones in \<open>eu-west-1\<close>, an internal one in
  \<open>eu-central-1\<close> with the address range of the first, and a \<open>dmz-\<close> subnet in
  \<open>us-east-1\<close>, a region without internal subnets.
\<close>

definition example_hosts :: "string \<Rightarrow> ip list" where
  "example_hosts cidr =
     (if cidr = ''10.0.0.0/28'' then
        [''10.0.0.1'', ''10.0.0.2'', ''10.0.0.3'', ''10.0.0.4'', ''10.0.0.5'', ''10.0.0.6'',
         ''10.0.0.7'', ''10.0.0.8'', ''10.0.0.9'', ''10.0.0.10'', ''10.0.0.11'', ''10.0.0.12'',
         ''10.0.0.13'', ''10.0.0.14'']
      else if cidr = ''10.0.1.0/28'' then
        [''10.0.1.1'', ''10.0.1.2'', ''10.0.1.3'', ''10.0.1.4'', ''10.0.1.5'', ''10.0.1.6'',
         ''10.0.1.7'', ''10.0.1.8'', ''10.0.1.9'', ''10.0.1.10'', ''10.0.1.11'', ''10.0.1.12'',
         ''10.0.1.13'', ''10.0.1.14'']
      else [])"

text \<open>A host sequence cut after its eleventh address: one address is left after the skip.\<close>

definition eleven_hosts :: "string \<Rightarrow> ip list" where
  "eleven_hosts cidr = take 11 (example_hosts cidr)"

definition subnet_a :: subnet where
  "subnet_a = \<lparr>SubnetId = ''subnet-a'', CidrBlock = ''10.0.0.0/28'',
      AvailabilityZone = ''eu-west-1a'', Tags = Some [(''Name'', ''internal-eu-west-1a'')]\<rparr>"

definition subnet_b :: subnet where
  "subnet_b = \<lparr>SubnetId = ''subnet-b'', CidrBlock = ''10.0.1.0/28'',
      AvailabilityZone = ''eu-west-1b'', Tags = Some [(''Name'', ''internal-eu-west-1b'')]\<rparr>"

definition subnet_c :: subnet where
  "subnet_c = \<lparr>SubnetId = ''subnet-c'', CidrBlock = ''10.0.0.0/28'',
      AvailabilityZone = ''eu-central-1a'', Tags = Some [(''Name'', ''internal-eu-central-1a'')]\<rparr>"

definition subnet_d :: subnet where
  "subnet_d = \<lparr>SubnetId = ''subnet-d'', CidrBlock = ''10.0.1.0/28'',
      AvailabilityZone = ''us-east-1a'', Tags = Some [(''Name'', ''dmz-us-east-1a'')]\<rparr>"

text \<open>
  A client of a region with the given subnets, where \<open>10.0.0.11\<close> is in use, every call
  succeeds, the group created gets the given id and no bastion group exists; the n-th
  Elastic IP has n+1 digits \<open>1\<close>.
\<close>

definition example_client :: "string \<Rightarrow> subnet list \<Rightarrow> ec2_client" where
  "example_client sg subs =
     \<lparr>describe_instances = (\<lambda>a. Inr (a = ''10.0.0.11'')),
      allocate_address =
        (\<lambda>n. Inr (''52.0.0.'' @ replicate (Suc n) CHR ''1'',
                  ''eipalloc-'' @ replicate (Suc n) CHR ''1'')),
      describe_subnets = Inr subs,
      images_filter = Inr [(''Taupage-AMI-1'', ''ami-1'')],
      describe_vpcs = Inr [''vpc-1''],
      create_security_group = (\<lambda>name vpc. Inr sg),
      create_tags = (\<lambda>resource. None),
      describe_security_groups = (\<lambda>name. Inl (ClientError ''InvalidGroup.NotFound'')),
      authorize_security_group_ingress = (\<lambda>sg rules. None),
      delete_security_group = (\<lambda>sg. None),
      release_address = (\<lambda>allocation. None)\<rparr>"

definition example_world :: world where
  "example_world =
     \<lparr>boto3_ec2 =
        (\<lambda>region. if region = ''eu-west-1'' then example_client ''sg-1'' [subnet_b, subnet_a]
                  else if region = ''eu-central-1'' then example_client ''sg-2'' [subnet_c]
                  else if region = ''us-east-1'' then example_client ''sg-3'' [subnet_d]
                  else example_client ''sg-4'' []),
      iter_hosts = example_hosts,
      list_hosted_zones_by_name = (\<lambda>name. Inr []),
      change_resource_record_sets = (\<lambda>zone name records. None),
      setup_sns_topics_for_alarm = (\<lambda>regions. Inr []),
      ensure_instance_profile = (\<lambda>name. None),
      launch_instance = (\<lambda>region a ami subnet sg is_seed. Returns ()),
      before_try = None\<rparr>"



text \<open>A variation in which no region has a Taupage image.\<close>

definition imageless_world :: world where
  "imageless_world =
     example_world\<lparr>boto3_ec2 :=
       (\<lambda>region. (boto3_ec2 example_world region)\<lparr>images_filter := Inr []\<rparr>)\<rparr>"

definition example_options :: options where
  "example_options =
     \<lparr>opt_cluster_name = ''planb'', opt_cluster_size = 1, opt_regions = [''eu-west-1''],
      opt_use_dmz = False, opt_hosted_zone = None, opt_sns_topic = None,
      opt_sns_email = None, opt_seed_count = 0, opt_seed_nodes = [], opt_node_ips = [],
      opt_security_groups = [], opt_taupage_amis = [], opt_subnets = []\<rparr>"

section \<open>The allocation loop, step by step\<close>

lemma loop_done:
  "\<not> int i < Q \<Longrightarrow> allocation_loop ec2 subnets Q its i = ([], None)"
  by (subst allocation_loop.simps) simp

lemma loop_no_subnets:
  "int i < Q \<Longrightarrow> subnets = [] \<Longrightarrow>
     allocation_loop ec2 subnets Q its i = ([], Some ZeroDivisionError)"
  by (subst allocation_loop.simps) simp

lemma loop_no_iterator:
  "int i < Q \<Longrightarrow> subnets \<noteq> [] \<Longrightarrow> \<not> i mod length subnets < length its \<Longrightarrow>
     allocation_loop ec2 subnets Q its i = ([], Some IndexError)"
  by (subst allocation_loop.simps) simp

lemma loop_depleted:
  "int i < Q \<Longrightarrow> subnets \<noteq> [] \<Longrightarrow> i mod length subnets < length its \<Longrightarrow>
   its ! (i mod length subnets) = [] \<Longrightarrow>
     allocation_loop ec2 subnets Q its i =
       ([], Some (IpAddressPoolDepletedException (CidrBlock (subnets ! (i mod length subnets)))))"
  by (subst allocation_loop.simps) (simp add: try_next_address_def)

lemma loop_query_raises:
  "int i < Q \<Longrightarrow> subnets \<noteq> [] \<Longrightarrow> i mod length subnets < length its \<Longrightarrow>
   its ! (i mod length subnets) = a # rest \<Longrightarrow> describe_instances ec2 a = Inl e \<Longrightarrow>
     allocation_loop ec2 subnets Q its i = ([], Some e)"
  by (subst allocation_loop.simps) (simp add: try_next_address_def)

lemma loop_in_use:
  "int i < Q \<Longrightarrow> subnets \<noteq> [] \<Longrightarrow> i mod length subnets < length its \<Longrightarrow>
   its ! (i mod length subnets) = a # rest \<Longrightarrow> describe_instances ec2 a = Inr True \<Longrightarrow>
     allocation_loop ec2 subnets Q its i =
       allocation_loop ec2 subnets Q (its[i mod length subnets := rest]) i"
  by (subst allocation_loop.simps) (simp add: try_next_address_def)

lemma loop_accept:
  "int i < Q \<Longrightarrow> subnets \<noteq> [] \<Longrightarrow> i mod length subnets < length its \<Longrightarrow>
   its ! (i mod length subnets) = a # rest \<Longrightarrow> describe_instances ec2 a = Inr False \<Longrightarrow>
     allocation_loop ec2 subnets Q its i =
       (a # fst (allocation_loop ec2 subnets Q (its[i mod length subnets := rest]) (Suc i)),
        snd (allocation_loop ec2 subnets Q (its[i mod length subnets := rest]) (Suc i)))"
  by (subst allocation_loop.simps) (simp add: try_next_address_def split: prod.splits)

lemma loop_induct [case_names finished no_subnets no_iterator depleted query_raises in_use accept]:
  fixes client :: ec2_client and subnets :: "subnet list"
  assumes "\<And>its i. \<not> int i < Q \<Longrightarrow> P its i"
    and "\<And>its i. int i < Q \<Longrightarrow> subnets = [] \<Longrightarrow> P its i"
    and "\<And>its i. int i < Q \<Longrightarrow> subnets \<noteq> [] \<Longrightarrow> \<not> i mod length subnets < length its \<Longrightarrow> P its i"
    and "\<And>its i. int i < Q \<Longrightarrow> subnets \<noteq> [] \<Longrightarrow> i mod length subnets < length its \<Longrightarrow>
           its ! (i mod length subnets) = [] \<Longrightarrow> P its i"
    and "\<And>its i a rest e. int i < Q \<Longrightarrow> subnets \<noteq> [] \<Longrightarrow> i mod length subnets < length its \<Longrightarrow>
           its ! (i mod length subnets) = a # rest \<Longrightarrow> describe_instances client a = Inl e \<Longrightarrow> P its i"
    and "\<And>its i a rest. int i < Q \<Longrightarrow> subnets \<noteq> [] \<Longrightarrow> i mod length subnets < length its \<Longrightarrow>
           its ! (i mod length subnets) = a # rest \<Longrightarrow> describe_instances client a = Inr True \<Longrightarrow>
           P (its[i mod length subnets := rest]) i \<Longrightarrow> P its i"
    and "\<And>its i a rest. int i < Q \<Longrightarrow> subnets \<noteq> [] \<Longrightarrow> i mod length subnets < length its \<Longrightarrow>
           its ! (i mod length subnets) = a # rest \<Longrightarrow> describe_instances client a = Inr False \<Longrightarrow>
           P (its[i mod length subnets := rest]) (Suc i) \<Longrightarrow> P its i"
  shows "P its i"
  using assms
proof (induction client subnets Q its i rule: allocation_loop.induct)
  case (1 client subnets Q its i)
  show ?case
  proof (cases "int i < Q")
    case False then show ?thesis by (rule "1.prems"(1))
  next
    case lt: True
    show ?thesis
    proof (cases "subnets = []")
      case True show ?thesis by (rule "1.prems"(2)[OF lt True])
    next
      case ne: False
      then have ne': "length subnets \<noteq> 0" by simp
      show ?thesis
      proof (cases "i mod length subnets < length its")
        case False show ?thesis by (rule "1.prems"(3)[OF lt ne False])
      next
        case idx: True
        show ?thesis
        proof (cases "its ! (i mod length subnets)")
          case Nil show ?thesis by (rule "1.prems"(4)[OF lt ne idx Nil])
        next
          case (Cons a rest)
          have t: "try_next_address (its ! (i mod length subnets))
                     (subnets ! (i mod length subnets)) = Inr (a, rest)"
            using Cons by (simp add: try_next_address_def)
          show ?thesis
          proof (cases "describe_instances client a")
            case (Inl e) show ?thesis by (rule "1.prems"(5)[OF lt ne idx Cons Inl])
          next
            case (Inr b)
            show ?thesis
            proof (cases b)
              case True
              with Inr have d: "describe_instances client a = Inr True" by simp
              have "P (its[i mod length subnets := rest]) i"
                by (rule "1.IH"(1)[OF lt ne' refl idx t refl d refl "1.prems"])
              then show ?thesis by (rule "1.prems"(6)[OF lt ne idx Cons d])
            next
              case False
              with Inr have d: "describe_instances client a = Inr False" by simp
              have "P (its[i mod length subnets := rest]) (Suc i)"
                by (rule "1.IH"(2)[OF lt ne' refl idx t refl d refl "1.prems"])
              then show ?thesis by (rule "1.prems"(7)[OF lt ne idx Cons d])
            qed
          qed
        qed
      qed
    qed
  qed
qed


lemma round_robin_same_iff:
  "((i + Suc j) mod S = i mod S) = (Suc j mod S = 0)"
proof -
  have "((i + Suc j) mod S = i mod S) = (S dvd (i + Suc j) - i)"
    by (rule mod_eq_dvd_iff_nat) simp
  then show ?thesis by (simp add: dvd_eq_mod_eq_0)
qed

lemma loop_length:
  fixes client :: ec2_client and subnets :: "subnet list"
  shows "snd (allocation_loop client subnets Q its i) = None \<Longrightarrow>
         length (fst (allocation_loop client subnets Q its i)) = nat (Q - int i)"
proof (induction its i rule: loop_induct[where client=client and subnets=subnets and Q=Q])
  case (finished its i) then show ?case by (simp add: loop_done)
next
  case (no_subnets its i) then show ?case by (simp add: loop_no_subnets)
next
  case (no_iterator its i) then show ?case by (simp add: loop_no_iterator)
next
  case (depleted its i) then show ?case by (simp add: loop_depleted)
next
  case (query_raises its i a rest e) then show ?case by (simp add: loop_query_raises)
next
  case (in_use its i a rest) then show ?case by (simp add: loop_in_use)
next
  case (accept its i a rest)
  then show ?case by (simp add: loop_accept)
qed

lemma loop_nth:
  fixes client :: ec2_client and subnets :: "subnet list"
  shows "length its = length subnets \<Longrightarrow>
         j < length (fst (allocation_loop client subnets Q its i)) \<Longrightarrow>
         j div length subnets < length (unused client (its ! ((i + j) mod length subnets))) \<and>
         fst (allocation_loop client subnets Q its i) ! j =
           unused client (its ! ((i + j) mod length subnets)) ! (j div length subnets)"
proof (induction its i arbitrary: j rule: loop_induct[where client=client and subnets=subnets and Q=Q])
  case (finished its i) then show ?case by (simp add: loop_done)
next
  case (no_subnets its i) then show ?case by (simp add: loop_no_subnets)
next
  case (no_iterator its i) then show ?case by (simp add: loop_no_iterator)
next
  case (depleted its i) then show ?case by (simp add: loop_depleted)
next
  case (query_raises its i a rest e) then show ?case by (simp add: loop_query_raises)
next
  case (in_use its i a rest)
  let ?S = "length subnets" and ?its' = "its[i mod length subnets := rest]"
  have j: "j < length (fst (allocation_loop client subnets Q ?its' i))"
    using in_use by (simp add: loop_in_use)
  have same: "unused client (?its' ! k) = unused client (its ! k)" if "k < ?S" for k
    using in_use that by (cases "k = i mod ?S") simp_all
  have k: "(i + j) mod ?S < ?S" using in_use by simp
  have "length ?its' = ?S" using in_use by simp
  from in_use.IH[OF this j] show ?case
    using in_use.hyps by (simp add: loop_in_use same[OF k])
next
  case (accept its i a rest)
  let ?S = "length subnets" and ?its' = "its[i mod length subnets := rest]"
  let ?ys' = "fst (allocation_loop client subnets Q ?its' (Suc i))"
  have res: "fst (allocation_loop client subnets Q its i) = a # ?ys'"
    using accept.hyps by (simp add: loop_accept)
  have len: "length ?its' = ?S" using accept by simp
  have S: "0 < ?S" using accept by simp
  have head: "unused client (its ! (i mod ?S)) = a # unused client rest"
    using accept.hyps by simp
  show ?case
  proof (cases j)
    case 0
    then show ?thesis using res head by simp
  next
    case (Suc j')
    then have j': "j' < length ?ys'" using accept.prems res by simp
    note IH = accept.IH[OF len j']
    have idx: "(Suc i + j') mod ?S = (i + Suc j') mod ?S" by simp
    show ?thesis
    proof (cases "Suc j' mod ?S = 0")
      case True
      then have k: "(i + Suc j') mod ?S = i mod ?S" using round_robin_same_iff[of i j' ?S] by simp
      have d: "Suc j' div ?S = Suc (j' div ?S)" using True by (simp add: div_Suc)
      have "?its' ! (i mod ?S) = rest" using accept.hyps by simp
      with IH idx k have "j' div ?S < length (unused client rest) \<and>
          ?ys' ! j' = unused client rest ! (j' div ?S)" by simp
      then show ?thesis unfolding Suc res k d head by simp
    next
      case False
      then have k: "(i + Suc j') mod ?S \<noteq> i mod ?S" using round_robin_same_iff[of i j' ?S] by simp
      have d: "Suc j' div ?S = j' div ?S" using False by (simp add: div_Suc)
      have "?its' ! ((i + Suc j') mod ?S) = its ! ((i + Suc j') mod ?S)" using k by simp
      with IH idx have "j' div ?S < length (unused client (its ! ((i + Suc j') mod ?S))) \<and>
          ?ys' ! j' = unused client (its ! ((i + Suc j') mod ?S)) ! (j' div ?S)" by simp
      then show ?thesis unfolding Suc res d by simp
    qed
  qed
qed


lemma loop_raises:
  fixes client :: ec2_client and subnets :: "subnet list"
  assumes total: "\<forall>a. \<exists>b. describe_instances client a = Inr b"
  shows "length its = length subnets \<Longrightarrow> subnets \<noteq> [] \<Longrightarrow>
         snd (allocation_loop client subnets Q its i) = Some e \<Longrightarrow>
         int (i + length (fst (allocation_loop client subnets Q its i))) < Q \<and>
         e = IpAddressPoolDepletedException (CidrBlock (subnets !
               ((i + length (fst (allocation_loop client subnets Q its i))) mod length subnets))) \<and>
         length (unused client (its !
               ((i + length (fst (allocation_loop client subnets Q its i))) mod length subnets))) =
           length (fst (allocation_loop client subnets Q its i)) div length subnets"
proof (induction its i rule: loop_induct[where client=client and subnets=subnets and Q=Q])
  case (finished its i) then show ?case by (simp add: loop_done)
next
  case (no_subnets its i) then show ?case by simp
next
  case (no_iterator its i) then show ?case by simp
next
  case (depleted its i) then show ?case by (simp add: loop_depleted)
next
  case (query_raises its i a rest e')
  then show ?case using total by (metis sum.distinct(1))
next
  case (in_use its i a rest)
  let ?S = "length subnets" and ?its' = "its[i mod length subnets := rest]"
  let ?ys = "fst (allocation_loop client subnets Q ?its' i)"
  have eq: "allocation_loop client subnets Q its i = allocation_loop client subnets Q ?its' i"
    using in_use.hyps by (simp add: loop_in_use)
  have same: "unused client (?its' ! k) = unused client (its ! k)" if "k < ?S" for k
    using in_use that by (cases "k = i mod ?S") simp_all
  have k: "(i + length ?ys) mod ?S < ?S" using in_use by simp
  have "length ?its' = ?S" using in_use by simp
  from in_use.IH[OF this in_use.prems(2)] in_use.prems(3)
  show ?case unfolding eq by (simp add: same[OF k])
next
  case (accept its i a rest)
  let ?S = "length subnets" and ?its' = "its[i mod length subnets := rest]"
  let ?ys' = "fst (allocation_loop client subnets Q ?its' (Suc i))"
  let ?m' = "length ?ys'"
  have res: "fst (allocation_loop client subnets Q its i) = a # ?ys'"
    and exc: "snd (allocation_loop client subnets Q its i) =
              snd (allocation_loop client subnets Q ?its' (Suc i))"
    using accept.hyps by (simp_all add: loop_accept)
  have len: "length ?its' = ?S" using accept by simp
  have head: "unused client (its ! (i mod ?S)) = a # unused client rest"
    using accept.hyps by simp
  have IH: "int (Suc i + ?m') < Q \<and>
      e = IpAddressPoolDepletedException (CidrBlock (subnets ! ((Suc i + ?m') mod ?S))) \<and>
      length (unused client (?its' ! ((Suc i + ?m') mod ?S))) = ?m' div ?S"
    using accept.IH[OF len accept.prems(2)] accept.prems(3) exc by simp
  have idx: "(Suc i + ?m') mod ?S = (i + Suc ?m') mod ?S" by simp
  have "length (unused client (its ! ((i + Suc ?m') mod ?S))) = Suc ?m' div ?S"
  proof (cases "Suc ?m' mod ?S = 0")
    case True
    then have k: "(i + Suc ?m') mod ?S = i mod ?S"
      using round_robin_same_iff[of i ?m' ?S] by simp
    have d: "Suc ?m' div ?S = Suc (?m' div ?S)" using True by (simp add: div_Suc)
    have "?its' ! (i mod ?S) = rest" using accept.hyps by simp
    with IH idx k have "length (unused client rest) = ?m' div ?S" by simp
    then show ?thesis unfolding k d head by simp
  next
    case False
    then have k: "(i + Suc ?m') mod ?S \<noteq> i mod ?S"
      using round_robin_same_iff[of i ?m' ?S] by simp
    have d: "Suc ?m' div ?S = ?m' div ?S" using False by (simp add: div_Suc)
    have "?its' ! ((i + Suc ?m') mod ?S) = its ! ((i + Suc ?m') mod ?S)" using k by simp
    with IH idx show ?thesis unfolding d by simp
  qed
  with IH idx show ?case unfolding res by simp
qed



section \<open>The generator\<close>

lemma skip_addresses_eq:
  "skip_addresses n ips s =
     (if n \<le> length ips then Inr (drop n ips)
      else Inl (IpAddressPoolDepletedException (CidrBlock s)))"
  by (induction n ips s rule: skip_addresses.induct)
     (auto simp: try_next_address_def split: list.splits)

lemma skip_reserved_ok:
  "idx + length its \<le> length subnets \<Longrightarrow> \<forall>ips \<in> set its. 10 \<le> length ips \<Longrightarrow>
     skip_reserved subnets idx its = Inr (map (drop 10) its)"
  by (induction its arbitrary: idx) (simp_all add: skip_addresses_eq)

lemma skip_reserved_depleted:
  "idx + length its \<le> length subnets \<Longrightarrow> k < length its \<Longrightarrow> length (its ! k) < 10 \<Longrightarrow>
   \<forall>k' < k. 10 \<le> length (its ! k') \<Longrightarrow>
     skip_reserved subnets idx its =
       Inl (IpAddressPoolDepletedException (CidrBlock (subnets ! (idx + k))))"
proof (induction its arbitrary: idx k)
  case Nil then show ?case by simp
next
  case (Cons ips its)
  show ?case
  proof (cases k)
    case 0
    then show ?thesis using Cons.prems by (simp add: skip_addresses_eq)
  next
    case (Suc k')
    have first: "10 \<le> length ips" using Cons.prems(4) Suc by auto
    have rest: "\<forall>j < k'. 10 \<le> length (its ! j)" using Cons.prems(4) Suc by auto
    have "skip_reserved subnets (Suc idx) its =
        Inl (IpAddressPoolDepletedException (CidrBlock (subnets ! (Suc idx + k'))))"
      using Cons.prems Suc rest by (intro Cons.IH) simp_all
    then show ?thesis using Cons.prems first Suc by (simp add: skip_addresses_eq)
  qed
qed

lemma skip_reserved_cases:
  assumes "length its = length subnets"
  shows "(\<forall>ips \<in> set its. 10 \<le> length ips) \<and> skip_reserved subnets 0 its = Inr (map (drop 10) its)
       \<or> (\<exists>k < length its. length (its ! k) < 10 \<and> (\<forall>k' < k. 10 \<le> length (its ! k')) \<and>
            skip_reserved subnets 0 its =
              Inl (IpAddressPoolDepletedException (CidrBlock (subnets ! k))))"
proof (cases "\<forall>ips \<in> set its. 10 \<le> length ips")
  case True
  then show ?thesis using assms skip_reserved_ok[of 0 its subnets] by simp
next
  case False
  then have ex: "\<exists>k. k < length its \<and> length (its ! k) < 10"
    by (metis in_set_conv_nth not_le)
  define k where "k = (LEAST k. k < length its \<and> length (its ! k) < 10)"
  have k: "k < length its \<and> length (its ! k) < 10"
    unfolding k_def using ex by (rule LeastI_ex)
  have least: "\<forall>k' < k. 10 \<le> length (its ! k')"
  proof (intro allI impI)
    fix k' assume "k' < k"
    then have "\<not> (k' < length its \<and> length (its ! k') < 10)"
      unfolding k_def by (rule not_less_Least)
    moreover have "k' < length its" using \<open>k' < k\<close> k by simp
    ultimately show "10 \<le> length (its ! k')" by simp
  qed
  have "skip_reserved subnets 0 its =
      Inl (IpAddressPoolDepletedException (CidrBlock (subnets ! (0 + k))))"
    using assms k least by (intro skip_reserved_depleted) simp_all
  then show ?thesis using k least by auto
qed



lemma generate_skip_ok:
  assumes "\<forall>s \<in> set subnets. 10 \<le> length (hosts (CidrBlock s))"
  shows "generate_private_ip_addresses hosts client subnets Q =
         allocation_loop client subnets Q (map (\<lambda>s. drop 10 (hosts (CidrBlock s))) subnets) 0"
proof -
  have "skip_reserved subnets 0 (map (\<lambda>s. hosts (CidrBlock s)) subnets) =
        Inr (map (drop 10) (map (\<lambda>s. hosts (CidrBlock s)) subnets))"
    using assms by (intro skip_reserved_ok) simp_all
  then show ?thesis by (simp add: generate_private_ip_addresses_def comp_def)
qed

lemma generate_skip_depleted:
  assumes "k < length subnets" and "length (hosts (CidrBlock (subnets ! k))) < 10"
    and "\<forall>k' < k. 10 \<le> length (hosts (CidrBlock (subnets ! k')))"
  shows "generate_private_ip_addresses hosts client subnets Q =
         ([], Some (IpAddressPoolDepletedException (CidrBlock (subnets ! k))))"
proof -
  have "skip_reserved subnets 0 (map (\<lambda>s. hosts (CidrBlock s)) subnets) =
        Inl (IpAddressPoolDepletedException (CidrBlock (subnets ! (0 + k))))"
    using assms by (intro skip_reserved_depleted) simp_all
  then show ?thesis by (simp add: generate_private_ip_addresses_def)
qed

lemma generate_cases:
  "(\<forall>s \<in> set subnets. 10 \<le> length (hosts (CidrBlock s))) \<and>
     generate_private_ip_addresses hosts client subnets Q =
       allocation_loop client subnets Q (map (\<lambda>s. drop 10 (hosts (CidrBlock s))) subnets) 0
   \<or> (\<exists>k < length subnets. length (hosts (CidrBlock (subnets ! k))) < 10 \<and>
        (\<forall>k' < k. 10 \<le> length (hosts (CidrBlock (subnets ! k')))) \<and>
        generate_private_ip_addresses hosts client subnets Q =
          ([], Some (IpAddressPoolDepletedException (CidrBlock (subnets ! k)))))"
proof -
  let ?its = "map (\<lambda>s. hosts (CidrBlock s)) subnets"
  have "length ?its = length subnets" by simp
  from skip_reserved_cases[OF this] show ?thesis
  proof
    assume "(\<forall>ips\<in>set ?its. 10 \<le> length ips) \<and>
            skip_reserved subnets 0 ?its = Inr (map (drop 10) ?its)"
    then have "\<forall>s \<in> set subnets. 10 \<le> length (hosts (CidrBlock s))" by simp
    then show ?thesis using generate_skip_ok by blast
  next
    assume "\<exists>k<length ?its. length (?its ! k) < 10 \<and> (\<forall>k'<k. 10 \<le> length (?its ! k')) \<and>
            skip_reserved subnets 0 ?its =
              Inl (IpAddressPoolDepletedException (CidrBlock (subnets ! k)))"
    then obtain k where k: "k < length subnets" "length (?its ! k) < 10"
      "\<forall>k'<k. 10 \<le> length (?its ! k')" by auto
    have "length (hosts (CidrBlock (subnets ! k))) < 10" using k by simp
    moreover have "\<forall>k' < k. 10 \<le> length (hosts (CidrBlock (subnets ! k')))"
      using k by simp
    ultimately show ?thesis using k(1) generate_skip_depleted by blast
  qed
qed

lemma generate_nth:
  assumes "j < length (fst (generate_private_ip_addresses hosts client subnets Q))"
  shows "j div length subnets <
           length (unused client (drop 10 (hosts (CidrBlock (subnets ! (j mod length subnets)))))) \<and>
         fst (generate_private_ip_addresses hosts client subnets Q) ! j =
           unused client (drop 10 (hosts (CidrBlock (subnets ! (j mod length subnets)))))
             ! (j div length subnets)"
proof -
  let ?its = "map (\<lambda>s. drop 10 (hosts (CidrBlock s))) subnets"
  from generate_cases[of subnets hosts client Q] show ?thesis
  proof
    assume ok: "(\<forall>s \<in> set subnets. 10 \<le> length (hosts (CidrBlock s))) \<and>
      generate_private_ip_addresses hosts client subnets Q =
        allocation_loop client subnets Q ?its 0"
    then have j: "j < length (fst (allocation_loop client subnets Q ?its 0))"
      using assms by simp
    have ne: "subnets \<noteq> []"
    proof
      assume "subnets = []"
      then have "fst (allocation_loop client subnets Q ?its 0) = []"
        by (cases "int 0 < Q") (simp_all add: loop_done loop_no_subnets)
      then show False using j by simp
    qed
    then have k: "j mod length subnets < length subnets" by simp
    have "length ?its = length subnets" by simp
    from loop_nth[OF this j] show ?thesis using ok k by simp
  next
    assume "\<exists>k < length subnets. length (hosts (CidrBlock (subnets ! k))) < 10 \<and>
        (\<forall>k' < k. 10 \<le> length (hosts (CidrBlock (subnets ! k')))) \<and>
        generate_private_ip_addresses hosts client subnets Q =
          ([], Some (IpAddressPoolDepletedException (CidrBlock (subnets ! k))))"
    then show ?thesis using assms by auto
  qed
qed





lemma nth_filter_drop:
  assumes "n < length (filter P (drop d xs))"
  shows "\<exists>p. d \<le> p \<and> p < length xs \<and> filter P (drop d xs) ! n = xs ! p"
proof -
  have "filter P (drop d xs) ! n \<in> set (filter P (drop d xs))"
    using assms by (rule nth_mem)
  then have "filter P (drop d xs) ! n \<in> set (drop d xs)" by simp
  then obtain q where "q < length (drop d xs)" "drop d xs ! q = filter P (drop d xs) ! n"
    by (auto simp: in_set_conv_nth)
  then have "d \<le> d + q \<and> d + q < length xs \<and> filter P (drop d xs) ! n = xs ! (d + q)"
    by simp
  then show ?thesis by blast
qed

lemma distinct_take_drop_disjoint:
  "distinct xs \<Longrightarrow> x \<in> set (drop d xs) \<Longrightarrow> x \<notin> set (take d xs)"
  using set_take_disj_set_drop_if_distinct[of xs d d] by auto

lemma loop_depleted_iff:
  fixes client :: ec2_client and subnets :: "subnet list"
  assumes total: "\<forall>a. \<exists>b. describe_instances client a = Inr b"
    and len: "length its = length subnets" and ne: "subnets \<noteq> []"
  shows "(snd (allocation_loop client subnets Q its 0) = Some (IpAddressPoolDepletedException c)) =
         (\<exists>j. int j < Q \<and> c = CidrBlock (subnets ! (j mod length subnets)) \<and>
              length (unused client (its ! (j mod length subnets))) \<le> j div length subnets \<and>
              (\<forall>j' < j. j' div length subnets <
                           length (unused client (its ! (j' mod length subnets)))))"
    (is "?L = ?R")
proof
  let ?S = "length subnets"
  let ?ys = "fst (allocation_loop client subnets Q its 0)"
  let ?m = "length ?ys"
  assume L: ?L
  from loop_raises[OF total len ne L]
  have m: "int ?m < Q" "c = CidrBlock (subnets ! (?m mod ?S))"
    "length (unused client (its ! (?m mod ?S))) = ?m div ?S" by simp_all
  have "\<forall>j' < ?m. j' div ?S < length (unused client (its ! (j' mod ?S)))"
    using loop_nth[OF len, of _ client Q 0] by simp
  with m show ?R by (intro exI[of _ ?m]) simp
next
  let ?S = "length subnets"
  let ?ys = "fst (allocation_loop client subnets Q its 0)"
  let ?m = "length ?ys"
  assume ?R
  then obtain j where j: "int j < Q" "c = CidrBlock (subnets ! (j mod ?S))"
    "length (unused client (its ! (j mod ?S))) \<le> j div ?S"
    "\<forall>j' < j. j' div ?S < length (unused client (its ! (j' mod ?S)))" by blast
  have not_more: "\<not> j < ?m"
  proof
    assume "j < ?m"
    from loop_nth[OF len this] have "j div ?S < length (unused client (its ! (j mod ?S)))"
      by simp
    with j(3) show False by simp
  qed
  have "snd (allocation_loop client subnets Q its 0) \<noteq> None"
  proof
    assume "snd (allocation_loop client subnets Q its 0) = None"
    from loop_length[OF this] have "?m = nat Q" by simp
    with j(1) have "j < ?m" by simp
    with not_more show False by simp
  qed
  then obtain e where e: "snd (allocation_loop client subnets Q its 0) = Some e" by blast
  from loop_raises[OF total len ne e]
  have m: "e = IpAddressPoolDepletedException (CidrBlock (subnets ! (?m mod ?S)))"
    "length (unused client (its ! (?m mod ?S))) = ?m div ?S" by simp_all
  have "\<not> ?m < j"
  proof
    assume "?m < j"
    with j(4) have "?m div ?S < length (unused client (its ! (?m mod ?S)))" by blast
    with m(2) show False by simp
  qed
  with not_more have "?m = j" by simp
  with e m(1) j(2) show ?L by simp
qed

lemma iff_disj_right: "\<not> A \<Longrightarrow> L = B \<Longrightarrow> L = (A \<or> B)"
  by simp

lemma iff_disj_left: "\<not> B \<Longrightarrow> L = A \<Longrightarrow> L = (A \<or> B)"
  by simp

lemma generate_depleted_iff:
  assumes total: "\<forall>a. \<exists>b. describe_instances client a = Inr b"
  shows "(snd (generate_private_ip_addresses hosts client subnets Q) =
            Some (IpAddressPoolDepletedException c)) =
         ((\<exists>k < length subnets. c = CidrBlock (subnets ! k) \<and>
              length (hosts (CidrBlock (subnets ! k))) < 10 \<and>
              (\<forall>k' < k. 10 \<le> length (hosts (CidrBlock (subnets ! k'))))) \<or>
          (subnets \<noteq> [] \<and> (\<forall>k < length subnets. 10 \<le> length (hosts (CidrBlock (subnets ! k)))) \<and>
           (\<exists>j. int j < Q \<and> c = CidrBlock (subnets ! (j mod length subnets)) \<and>
              length (unused client (drop 10 (hosts (CidrBlock (subnets ! (j mod length subnets))))))
                \<le> j div length subnets \<and>
              (\<forall>j' < j. j' div length subnets <
                 length (unused client
                   (drop 10 (hosts (CidrBlock (subnets ! (j' mod length subnets))))))))))"
    (is "?L = (?A \<or> ?B)")
proof -
  let ?S = "length subnets"
  let ?its = "map (\<lambda>s. drop 10 (hosts (CidrBlock s))) subnets"
  from generate_cases[of subnets hosts client Q] show ?thesis
  proof
    assume ok: "(\<forall>s \<in> set subnets. 10 \<le> length (hosts (CidrBlock s))) \<and>
      generate_private_ip_addresses hosts client subnets Q =
        allocation_loop client subnets Q ?its 0"
    then have all: "\<forall>k < ?S. 10 \<le> length (hosts (CidrBlock (subnets ! k)))" by simp
    then have notA: "\<not> ?A" by (auto simp: not_less)
    show ?thesis
    proof (cases "subnets = []")
      case True
      then have "snd (allocation_loop client subnets Q ?its 0) \<noteq>
          Some (IpAddressPoolDepletedException c)"
        by (cases "int 0 < Q") (simp_all add: loop_done loop_no_subnets)
      with ok True have "?L = ?B" by simp
      with notA show ?thesis by (rule iff_disj_right)
    next
      case False
      have len: "length ?its = ?S" by simp
      have nth: "?its ! (j mod ?S) = drop 10 (hosts (CidrBlock (subnets ! (j mod ?S))))" for j
        using False by simp
      have "?L = ?B"
        using loop_depleted_iff[OF total len False, of Q c] ok all False
        by (simp only: nth) simp
      with notA show ?thesis by (rule iff_disj_right)
    qed
  next
    assume "\<exists>k < ?S. length (hosts (CidrBlock (subnets ! k))) < 10 \<and>
        (\<forall>k' < k. 10 \<le> length (hosts (CidrBlock (subnets ! k')))) \<and>
        generate_private_ip_addresses hosts client subnets Q =
          ([], Some (IpAddressPoolDepletedException (CidrBlock (subnets ! k))))"
    then obtain k where k: "k < ?S" "length (hosts (CidrBlock (subnets ! k))) < 10"
      "\<forall>k' < k. 10 \<le> length (hosts (CidrBlock (subnets ! k')))"
      "generate_private_ip_addresses hosts client subnets Q =
          ([], Some (IpAddressPoolDepletedException (CidrBlock (subnets ! k))))" by blast
    have notB: "\<not> ?B" using k(1,2) by (auto simp: not_le)
    have first: "k2 = k" if "k2 < ?S" "length (hosts (CidrBlock (subnets ! k2))) < 10"
      "\<forall>k' < k2. 10 \<le> length (hosts (CidrBlock (subnets ! k')))" for k2
    proof (rule ccontr)
      assume "k2 \<noteq> k"
      then consider "k2 < k" | "k < k2" by linarith
      then show False
      proof cases
        case 1 with k(3) that(2) show False by auto
      next
        case 2 with that(3) k(2) show False by auto
      qed
    qed
    have "?A = (c = CidrBlock (subnets ! k))"
      using k(1,2,3) first by blast
    with k(4) have "?L = ?A" by auto
    with notB show ?thesis by (rule iff_disj_left)
  qed
qed


lemma take_addresses_plain:
  "snd (snd (take_addresses client region False n ips node_ips)) = None"
  by (induction ips arbitrary: node_ips) simp_all

lemma allocate_aborts:
  assumes "snd (generate_private_ip_addresses (iter_hosts w) (boto3_ec2 w region) subnets Q) = Some e"
  shows "\<exists>e'. snd (snd (allocate_ip_addresses w ((region, subnets) # others) Q node_ips elastic))
             = Some e' \<and> (\<not> elastic \<longrightarrow> e' = e)"
proof -
  obtain ips where g: "generate_private_ip_addresses (iter_hosts w) (boto3_ec2 w region) subnets Q
      = (ips, Some e)"
    using assms by (cases "generate_private_ip_addresses (iter_hosts w) (boto3_ec2 w region) subnets Q") simp
  obtain evs node_ips' r where t:
    "take_addresses (boto3_ec2 w region) region elastic 0 ips node_ips = (evs, node_ips', r)"
    by (cases "take_addresses (boto3_ec2 w region) region elastic 0 ips node_ips") auto
  have "\<not> elastic \<Longrightarrow> r = None"
    using take_addresses_plain[of "boto3_ec2 w region" region 0 ips node_ips] t by simp
  then show ?thesis by (cases r) (auto simp: g t)
qed

lemma single_subnet_scenario:
  assumes total: "\<forall>a. \<exists>b. describe_instances client a = Inr b"
    and eleven: "length (hosts (CidrBlock s)) = 11"
  shows "snd (generate_private_ip_addresses hosts client [s] 2) =
         Some (IpAddressPoolDepletedException (CidrBlock s))"
proof -
  let ?U = "unused client (drop 10 (hosts (CidrBlock s)))"
  have "length ?U \<le> length (drop 10 (hosts (CidrBlock s)))" by (rule length_filter_le)
  then have le: "length ?U \<le> 1" using eleven by simp
  have "\<exists>j. int j < 2 \<and> CidrBlock s = CidrBlock ([s] ! (j mod length [s])) \<and>
      length (unused client (drop 10 (hosts (CidrBlock ([s] ! (j mod length [s]))))))
        \<le> j div length [s] \<and>
      (\<forall>j' < j. j' div length [s] <
         length (unused client (drop 10 (hosts (CidrBlock ([s] ! (j' mod length [s])))))))"
  proof (cases "length ?U = 0")
    case True
    then show ?thesis by (intro exI[of _ 0]) simp
  next
    case False
    with le have "length ?U = 1" by (cases ?U) simp_all
    then show ?thesis by (intro exI[of _ 1]) simp
  qed
  then show ?thesis
    using generate_depleted_iff[OF total, of hosts "[s]" 2 "CidrBlock s"] eleven by simp
qed





section \<open>Allocation over the regions\<close>






section \<open>Claims about the address allocator\<close>

text \<open>
  Claim C4. In a region with S subnets, the j-th address the generator yields (counting
  from 0, yielded addresses only) is drawn from subnet \<open>j mod S\<close>: it is entry
  \<open>j div S\<close> of that subnet's host sequence after the ten reserved addresses, restricted
  to the addresses the provider does not report in use. So a candidate that is reported
  in use is replaced by the next address of the same subnet, and the rotation moves on
  only when an address has been accepted.
\<close>

theorem round_robin_draw:
  assumes "generate_private_ip_addresses hosts client subnets Q = (ys, r)"
    and "j < length ys"
  shows "j div length subnets <
           length (unused client (drop 10 (hosts (CidrBlock (subnets ! (j mod length subnets)))))) \<and>
         ys ! j = unused client (drop 10 (hosts (CidrBlock (subnets ! (j mod length subnets)))))
                    ! (j div length subnets)"
  using generate_nth[of j hosts client subnets Q] assms by simp

theorem round_robin_draw_witness:
  "generate_private_ip_addresses example_hosts (example_client ''sg-1'' []) [subnet_a, subnet_b] 3 =
     ([''10.0.0.12'', ''10.0.1.11'', ''10.0.0.13''], None) \<and>
   (2::nat) < length [''10.0.0.12'', ''10.0.1.11'', ''10.0.0.13''] \<and>
   [''10.0.0.12'', ''10.0.1.11'', ''10.0.0.13''] ! 2 =
     unused (example_client ''sg-1'' [])
       (drop 10 (example_hosts (CidrBlock ([subnet_a, subnet_b] !
          (2 mod length [subnet_a, subnet_b]))))) ! (2 div length [subnet_a, subnet_b])"
proof -
  have run: "generate_private_ip_addresses example_hosts (example_client ''sg-1'' [])
      [subnet_a, subnet_b] 3 = ([''10.0.0.12'', ''10.0.1.11'', ''10.0.0.13''], None)"
    by code_simp
  have j: "(2::nat) < length [''10.0.0.12'', ''10.0.1.11'', ''10.0.0.13'']" by simp
  from round_robin_draw[OF run j] have "[''10.0.0.12'', ''10.0.1.11'', ''10.0.0.13''] ! 2 =
     unused (example_client ''sg-1'' [])
       (drop 10 (example_hosts (CidrBlock ([subnet_a, subnet_b] !
          (2 mod length [subnet_a, subnet_b]))))) ! (2 div length [subnet_a, subnet_b])"
    by (rule conjunct2)
  with run j show ?thesis by blast
qed

text \<open>
  Claim C6. Every address the generator yields stands at position 10 or later in the host
  sequence of the subnet it is drawn from (the reserved count is the literal 10 of the
  source); when that sequence has no repeated address, the yielded address is none of its
  first ten.
\<close>

theorem reserved_addresses_skipped:
  assumes "generate_private_ip_addresses hosts client subnets Q = (ys, r)"
    and "j < length ys"
  shows "(\<exists>p. 10 \<le> p \<and> p < length (hosts (CidrBlock (subnets ! (j mod length subnets)))) \<and>
              ys ! j = hosts (CidrBlock (subnets ! (j mod length subnets))) ! p) \<and>
         (distinct (hosts (CidrBlock (subnets ! (j mod length subnets)))) \<longrightarrow>
              ys ! j \<notin> set (take 10 (hosts (CidrBlock (subnets ! (j mod length subnets))))))"
proof -
  let ?H = "hosts (CidrBlock (subnets ! (j mod length subnets)))"
  have nth: "j div length subnets < length (unused client (drop 10 ?H))"
    "ys ! j = unused client (drop 10 ?H) ! (j div length subnets)"
    using generate_nth[of j hosts client subnets Q] assms by simp_all
  have pos: "\<exists>p. 10 \<le> p \<and> p < length ?H \<and> ys ! j = ?H ! p"
    using nth_filter_drop[OF nth(1)] nth(2) by simp
  have "ys ! j \<in> set (unused client (drop 10 ?H))"
    unfolding nth(2) using nth(1) by (rule nth_mem)
  then have mem: "ys ! j \<in> set (drop 10 ?H)" by simp
  have "ys ! j \<notin> set (take 10 ?H)" if "distinct ?H"
    using that mem by (rule distinct_take_drop_disjoint)
  with pos show ?thesis by (intro conjI impI)
qed

theorem reserved_addresses_skipped_witness:
  "generate_private_ip_addresses example_hosts (example_client ''sg-1'' []) [subnet_a, subnet_b] 3 =
     ([''10.0.0.12'', ''10.0.1.11'', ''10.0.0.13''], None) \<and>
   (1::nat) < length [''10.0.0.12'', ''10.0.1.11'', ''10.0.0.13''] \<and>
   distinct (example_hosts (CidrBlock ([subnet_a, subnet_b] !
      (1 mod length [subnet_a, subnet_b])))) \<and>
   [''10.0.0.12'', ''10.0.1.11'', ''10.0.0.13''] ! 1 \<notin>
     set (take 10 (example_hosts (CidrBlock ([subnet_a, subnet_b] !
       (1 mod length [subnet_a, subnet_b])))))"
proof -
  have run: "generate_private_ip_addresses example_hosts (example_client ''sg-1'' [])
      [subnet_a, subnet_b] 3 = ([''10.0.0.12'', ''10.0.1.11'', ''10.0.0.13''], None)"
    by code_simp
  have j: "(1::nat) < length [''10.0.0.12'', ''10.0.1.11'', ''10.0.0.13'']" by simp
  have d: "distinct (example_hosts (CidrBlock ([subnet_a, subnet_b] !
      (1 mod length [subnet_a, subnet_b]))))"
    by code_simp
  from reserved_addresses_skipped[OF run j] d
  have "[''10.0.0.12'', ''10.0.1.11'', ''10.0.0.13''] ! 1 \<notin>
     set (take 10 (example_hosts (CidrBlock ([subnet_a, subnet_b] !
       (1 mod length [subnet_a, subnet_b])))))"
    by blast
  with run j d show ?thesis by blast
qed




text \<open>
  Claim C5. With a provider whose in-use query always answers, the generator ends in
  \<open>IpAddressPoolDepletedException\<close> with the CIDR block \<open>c\<close> exactly when \<open>c\<close> is the
  block of the first subnet with fewer than ten host addresses (exhaustion while
  skipping), or, every subnet having ten, the block of the subnet \<open>j mod S\<close> of the first
  slot \<open>j\<close> below the quota for which that subnet has no more than \<open>j div S\<close> addresses
  not in use after the skip (exhaustion before the quota is filled). The exception of the
  generator ends \<open>allocate_ip_addresses\<close> for the region and all regions after it: the
  allocation returns an exception, the same one when no Elastic IPs are taken. A region
  whose only subnet has eleven host addresses, one after the skip, with quota 2 ends in
  \<open>IpAddressPoolDepletedException\<close> with that subnet's block.
\<close>

theorem pool_depleted:
  assumes "\<forall>a. \<exists>b. describe_instances client a = Inr b"
  shows
    "((snd (generate_private_ip_addresses hosts client subnets Q) =
         Some (IpAddressPoolDepletedException c)) =
      ((\<exists>k < length subnets. c = CidrBlock (subnets ! k) \<and>
           length (hosts (CidrBlock (subnets ! k))) < 10 \<and>
           (\<forall>k' < k. 10 \<le> length (hosts (CidrBlock (subnets ! k'))))) \<or>
       (subnets \<noteq> [] \<and> (\<forall>k < length subnets. 10 \<le> length (hosts (CidrBlock (subnets ! k)))) \<and>
        (\<exists>j. int j < Q \<and> c = CidrBlock (subnets ! (j mod length subnets)) \<and>
           length (unused client (drop 10 (hosts (CidrBlock (subnets ! (j mod length subnets))))))
             \<le> j div length subnets \<and>
           (\<forall>j' < j. j' div length subnets <
              length (unused client
                (drop 10 (hosts (CidrBlock (subnets ! (j' mod length subnets)))))))))))
     \<and> (snd (generate_private_ip_addresses (iter_hosts w) (boto3_ec2 w region) subnets Q) = Some e
          \<longrightarrow> (\<exists>e'. snd (snd (allocate_ip_addresses w ((region, subnets) # others) Q node_ips
                                elastic)) = Some e' \<and> (\<not> elastic \<longrightarrow> e' = e)))
     \<and> (length (hosts (CidrBlock s)) = 11
          \<longrightarrow> snd (generate_private_ip_addresses hosts client [s] 2) =
                Some (IpAddressPoolDepletedException (CidrBlock s)))"
  using generate_depleted_iff[OF assms, of hosts subnets Q c]
    allocate_aborts[of w region subnets Q e others node_ips elastic]
    single_subnet_scenario[OF assms, of hosts s]
  by (intro conjI impI)


theorem pool_depleted_witness:
  "(\<forall>a. \<exists>b. describe_instances (example_client ''sg-1'' []) a = Inr b) \<and>
   length (eleven_hosts (CidrBlock subnet_a)) = 11 \<and>
   snd (generate_private_ip_addresses eleven_hosts (example_client ''sg-1'' []) [subnet_a] 2) =
     Some (IpAddressPoolDepletedException (CidrBlock subnet_a)) \<and>
   snd (generate_private_ip_addresses (iter_hosts (example_world\<lparr>iter_hosts := eleven_hosts\<rparr>))
          (boto3_ec2 (example_world\<lparr>iter_hosts := eleven_hosts\<rparr>) ''eu-west-1'')
          [subnet_a] 2) = Some (IpAddressPoolDepletedException ''10.0.0.0/28'') \<and>
   snd (snd (allocate_ip_addresses (example_world\<lparr>iter_hosts := eleven_hosts\<rparr>)
               [(''eu-west-1'', [subnet_a])] 2 [] False)) =
     Some (IpAddressPoolDepletedException ''10.0.0.0/28'')"
proof -
  let ?w = "example_world\<lparr>iter_hosts := eleven_hosts\<rparr>"
  have total: "\<forall>a. \<exists>b. describe_instances (example_client ''sg-1'' []) a = Inr b"
    by (simp add: example_client_def)
  have eleven: "length (eleven_hosts (CidrBlock subnet_a)) = 11" by code_simp
  have gen: "snd (generate_private_ip_addresses (iter_hosts ?w) (boto3_ec2 ?w ''eu-west-1'')
      [subnet_a] 2) = Some (IpAddressPoolDepletedException ''10.0.0.0/28'')"
    by code_simp
  note claim = pool_depleted[OF total, where hosts = eleven_hosts and subnets = "[subnet_a]"
      and Q = 2 and c = "''10.0.0.0/28''" and w = ?w and region = "''eu-west-1''"
      and e = "IpAddressPoolDepletedException ''10.0.0.0/28''" and others = "[]"
      and node_ips = "[]" and elastic = False and s = subnet_a]
  from claim eleven
  have scenario: "snd (generate_private_ip_addresses eleven_hosts (example_client ''sg-1'' [])
      [subnet_a] 2) = Some (IpAddressPoolDepletedException (CidrBlock subnet_a))"
    by (elim conjE) (rule mp)
  from claim gen
  have "\<exists>e'. snd (snd (allocate_ip_addresses ?w [(''eu-west-1'', [subnet_a])] 2 [] False)) = Some e'
      \<and> (\<not> False \<longrightarrow> e' = IpAddressPoolDepletedException ''10.0.0.0/28'')"
    by (elim conjE) (rule mp)
  then have "snd (snd (allocate_ip_addresses ?w [(''eu-west-1'', [subnet_a])] 2 [] False)) =
      Some (IpAddressPoolDepletedException ''10.0.0.0/28'')" by auto
  with total eleven scenario gen show ?thesis by (intro conjI)
qed









section \<open>Claims about the seed selector\<close>

lemma update_fresh_key:
  "k \<notin> fst ` set al \<Longrightarrow> AList.update k v al = al @ [(k, v)]"
  by (induction al) auto

lemma fold_update_distinct:
  "distinct (map fst xs) \<Longrightarrow> fst ` set xs \<inter> fst ` set acc = {} \<Longrightarrow>
     fold (\<lambda>(k, v) d. AList.update k (f v) d) xs acc = acc @ map (\<lambda>(k, v). (k, f v)) xs"
proof (induction xs arbitrary: acc)
  case Nil
  then show ?case by simp
next
  case (Cons x xs)
  obtain k v where x: "x = (k, v)" by (cases x)
  have fresh: "k \<notin> fst ` set acc" using Cons.prems(2) x by auto
  have upd: "AList.update k (f v) acc = acc @ [(k, f v)]" using fresh by (rule update_fresh_key)
  have "fst ` set xs \<inter> fst ` set (acc @ [(k, f v)]) = {}"
    using Cons.prems x by auto
  moreover have "distinct (map fst xs)" using Cons.prems(1) by simp
  ultimately have "fold (\<lambda>(k, v) d. AList.update k (f v) d) xs (acc @ [(k, f v)]) =
      (acc @ [(k, f v)]) @ map (\<lambda>(k, v). (k, f v)) xs"
    by (rule Cons.IH[rotated])
  then show ?case using x upd by simp
qed

lemma pick_seed_node_ips_map:
  assumes "distinct (map fst node_ips)"
  shows "pick_seed_node_ips node_ips seed_count =
         map (\<lambda>(region, ips). (region, slice_to ips seed_count)) node_ips"
  using fold_update_distinct[OF assms, of "[]" "\<lambda>ips. slice_to ips seed_count"]
  by (simp add: pick_seed_node_ips_def)

lemma slice_to_nonneg: "0 \<le> n \<Longrightarrow> slice_to xs n = take (nat n) xs"
  by (simp add: slice_to_def)

text \<open>
  Claim C8. \<open>pick_seed_node_ips\<close> is a total function of the topology and the count
  (no exception is among its results). With \<open>seed_count = min(cluster_size, 3)\<close>, as
  \<open>create_cluster\<close> computes it, and a cluster size that is not negative, it returns
  the regions in the order of the topology, each with the first \<open>seed_count\<close> entries
  unchanged and in order; selecting again from its own result changes nothing; and a
  region holding \<open>cluster_size\<close> addresses gets exactly \<open>seed_count\<close> seeds.
\<close>

theorem seed_selector:
  assumes "distinct (map fst node_ips)" and "0 \<le> Q"
  shows "pick_seed_node_ips node_ips (min Q 3) =
           map (\<lambda>(region, ips). (region, take (nat (min Q 3)) ips)) node_ips \<and>
         pick_seed_node_ips (pick_seed_node_ips node_ips (min Q 3)) (min Q 3) =
           pick_seed_node_ips node_ips (min Q 3) \<and>
         (\<forall>region ips. (region, ips) \<in> set node_ips \<longrightarrow> length ips = nat Q \<longrightarrow>
            length (dict_get_list (pick_seed_node_ips node_ips (min Q 3)) region) = nat (min Q 3))"
proof -
  let ?n = "min Q 3"
  let ?f = "\<lambda>(region, ips). (region, take (nat ?n) ips)"
  have n: "0 \<le> ?n" using assms(2) by simp
  have slice: "(\<lambda>(region, ips). (region, slice_to ips ?n)) = ?f"
    using n by (simp add: slice_to_nonneg)
  have first: "pick_seed_node_ips node_ips ?n = map ?f node_ips"
    using pick_seed_node_ips_map[OF assms(1), of ?n] by (simp only: slice)
  have keys: "map fst (map ?f node_ips) = map fst node_ips" by (simp add: case_prod_beta comp_def)
  have "pick_seed_node_ips (map ?f node_ips) ?n = map ?f (map ?f node_ips)"
    using pick_seed_node_ips_map[of "map ?f node_ips" ?n] assms(1) keys by (simp only: slice)
  also have "\<dots> = map ?f node_ips" by (simp add: case_prod_beta)
  finally have second: "pick_seed_node_ips (pick_seed_node_ips node_ips ?n) ?n =
      pick_seed_node_ips node_ips ?n" by (simp only: first)
  have third: "length (dict_get_list (pick_seed_node_ips node_ips ?n) region) = nat ?n"
    if mem: "(region, ips) \<in> set node_ips" and len: "length ips = nat Q" for region ips
  proof -
    have "map_of (map ?f node_ips) region = Some (take (nat ?n) ips)"
      using assms(1) mem by (induction node_ips) (auto simp: rev_image_eqI)
    then have "dict_get_list (pick_seed_node_ips node_ips ?n) region = take (nat ?n) ips"
      by (simp add: first dict_get_list_def)
    then show ?thesis using len assms(2) by simp
  qed
  from first second third show ?thesis by blast
qed

theorem seed_selector_witness:
  "distinct (map fst
     [(''eu-west-1'',
        [\<lparr>PrivateIp = ''10.0.0.12'', defaultIp = ''10.0.0.12'', PublicIp = None,
          AllocationId = None\<rparr>,
         \<lparr>PrivateIp = ''10.0.1.11'', defaultIp = ''10.0.1.11'', PublicIp = None,
          AllocationId = None\<rparr>,
         \<lparr>PrivateIp = ''10.0.0.13'', defaultIp = ''10.0.0.13'', PublicIp = None,
          AllocationId = None\<rparr>,
         \<lparr>PrivateIp = ''10.0.1.12'', defaultIp = ''10.0.1.12'', PublicIp = None,
          AllocationId = None\<rparr>])]) \<and>
   (0::int) \<le> 4 \<and>
   pick_seed_node_ips
     [(''eu-west-1'',
        [\<lparr>PrivateIp = ''10.0.0.12'', defaultIp = ''10.0.0.12'', PublicIp = None,
          AllocationId = None\<rparr>,
         \<lparr>PrivateIp = ''10.0.1.11'', defaultIp = ''10.0.1.11'', PublicIp = None,
          AllocationId = None\<rparr>,
         \<lparr>PrivateIp = ''10.0.0.13'', defaultIp = ''10.0.0.13'', PublicIp = None,
          AllocationId = None\<rparr>,
         \<lparr>PrivateIp = ''10.0.1.12'', defaultIp = ''10.0.1.12'', PublicIp = None,
          AllocationId = None\<rparr>])] (min 4 3) =
     [(''eu-west-1'',
        [\<lparr>PrivateIp = ''10.0.0.12'', defaultIp = ''10.0.0.12'', PublicIp = None,
          AllocationId = None\<rparr>,
         \<lparr>PrivateIp = ''10.0.1.11'', defaultIp = ''10.0.1.11'', PublicIp = None,
          AllocationId = None\<rparr>,
         \<lparr>PrivateIp = ''10.0.0.13'', defaultIp = ''10.0.0.13'', PublicIp = None,
          AllocationId = None\<rparr>])]"
proof -
  let ?t = "[(''eu-west-1'',
        [\<lparr>PrivateIp = ''10.0.0.12'', defaultIp = ''10.0.0.12'', PublicIp = None,
          AllocationId = None\<rparr>,
         \<lparr>PrivateIp = ''10.0.1.11'', defaultIp = ''10.0.1.11'', PublicIp = None,
          AllocationId = None\<rparr>,
         \<lparr>PrivateIp = ''10.0.0.13'', defaultIp = ''10.0.0.13'', PublicIp = None,
          AllocationId = None\<rparr>,
         \<lparr>PrivateIp = ''10.0.1.12'', defaultIp = ''10.0.1.12'', PublicIp = None,
          AllocationId = None\<rparr>])]"
  have keys: "distinct (map fst ?t)" by simp
  have size: "(0::int) \<le> 4" by simp
  from seed_selector[OF keys size]
  have "pick_seed_node_ips ?t (min 4 3) =
      map (\<lambda>(region, ips). (region, take (nat (min 4 3)) ips)) ?t" by (rule conjunct1)
  then show ?thesis using keys size by simp
qed



section \<open>The two launch phases\<close>

lemma seeds_in_region_events:
  "launch_seeds_in_region w opts goal region sg subnets i ips n = (evs, n', r) \<Longrightarrow>
     (\<forall>e \<in> set evs. \<not> is_launch False e) \<and>
     (r = Returns () \<longrightarrow> filter (is_launch True) evs = map (\<lambda>a. LaunchInstance region a True) ips)"
proof (induction ips arbitrary: i n evs n' r)
  case Nil
  then show ?case by auto
next
  case (Cons a ips)
  show ?case
  proof (cases "map_of (opt_taupage_amis opts) region")
    case None
    then show ?thesis using Cons.prems by auto
  next
    case (Some ami)
    show ?thesis
    proof (cases "subnets = []")
      case True
      then show ?thesis using Cons.prems Some by auto
    next
      case False
      show ?thesis
      proof (cases "launch_instance w region a (snd ami) (subnets ! (i mod length subnets)) sg True")
        case (Returns u)
        obtain evs' n'' r' where rec:
          "launch_seeds_in_region w opts goal region sg subnets (Suc i) ips (Suc n) = (evs', n'', r')"
          by (cases "launch_seeds_in_region w opts goal region sg subnets (Suc i) ips (Suc n)") auto
        have evs: "evs = LaunchInstance region a True #
            (if int (Suc n) < goal then [Sleep 60] else []) @ evs'" and r: "r = r'"
          using Cons.prems Some False Returns rec by simp_all
        from Cons.IH[OF rec] show ?thesis unfolding evs r by auto
      next
        case (Raises ex)
        then show ?thesis using Cons.prems Some False by auto
      next
        case Hangs
        then show ?thesis using Cons.prems Some False by auto
      qed
    qed
  qed
qed

lemma seeds_in_region_no_normal:
  "e \<in> set (fst (launch_seeds_in_region w opts goal region sg subnets i ips n)) \<Longrightarrow>
     \<not> is_launch False e"
  using seeds_in_region_events[of w opts goal region sg subnets i ips n]
  by (cases "launch_seeds_in_region w opts goal region sg subnets i ips n") auto

lemma seeds_in_region_returns:
  "snd (snd (launch_seeds_in_region w opts goal region sg subnets i ips n)) = Returns u \<Longrightarrow>
     filter (is_launch True) (fst (launch_seeds_in_region w opts goal region sg subnets i ips n)) =
       map (\<lambda>a. LaunchInstance region a True) ips"
  using seeds_in_region_events[of w opts goal region sg subnets i ips n]
  by (cases "launch_seeds_in_region w opts goal region sg subnets i ips n") auto

lemma seed_regions_no_normal:
  "e \<in> set (fst (launch_seed_regions w opts goal seed_nodes n)) \<Longrightarrow> \<not> is_launch False e"
proof (induction seed_nodes arbitrary: n)
  case Nil
  then show ?case by simp
next
  case (Cons x seed_nodes)
  obtain region ips where x: "x = (region, ips)" by (cases x)
  show ?case
  proof (cases "map_of (opt_security_groups opts) region")
    case None
    then show ?thesis using Cons.prems x by simp
  next
    case (Some sg)
    let ?here = "launch_seeds_in_region w opts goal region sg
        (dict_get_list (opt_subnets opts) region) 0 ips n"
    obtain evs n' r where here: "?here = (evs, n', r)" by (cases ?here)
    have evs: "\<And>e. e \<in> set evs \<Longrightarrow> \<not> is_launch False e"
      using seeds_in_region_no_normal[of _ w opts goal region sg
          "dict_get_list (opt_subnets opts) region" 0 ips n] here by simp
    show ?thesis
    proof (cases r)
      case (Returns u)
      then have "e \<in> set evs \<or> e \<in> set (fst (launch_seed_regions w opts goal seed_nodes n'))"
        using Cons.prems x Some here by (auto split: prod.splits)
      then show ?thesis using evs Cons.IH by blast
    next
      case (Raises ex)
      then show ?thesis using Cons.prems x Some here evs by simp
    next
      case Hangs
      then show ?thesis using Cons.prems x Some here evs by simp
    qed
  qed
qed

lemma seed_regions_returns:
  "snd (launch_seed_regions w opts goal seed_nodes n) = Returns u \<Longrightarrow>
     filter (is_launch True) (fst (launch_seed_regions w opts goal seed_nodes n)) =
       seed_launches seed_nodes"
proof (induction seed_nodes arbitrary: n)
  case Nil
  then show ?case by (simp add: seed_launches_def)
next
  case (Cons x seed_nodes)
  obtain region ips where x: "x = (region, ips)" by (cases x)
  show ?case
  proof (cases "map_of (opt_security_groups opts) region")
    case None
    then show ?thesis using Cons.prems x by simp
  next
    case (Some sg)
    let ?here = "launch_seeds_in_region w opts goal region sg
        (dict_get_list (opt_subnets opts) region) 0 ips n"
    obtain evs n' r where here: "?here = (evs, n', r)" by (cases ?here)
    show ?thesis
    proof (cases r)
      case (Returns u')
      have evs: "filter (is_launch True) evs = map (\<lambda>a. LaunchInstance region a True) ips"
        using seeds_in_region_returns[of w opts goal region sg
            "dict_get_list (opt_subnets opts) region" 0 ips n u'] here Returns by simp
      have rest: "snd (launch_seed_regions w opts goal seed_nodes n') = Returns u"
        using Cons.prems x Some here Returns by (auto split: prod.splits)
      have "fst (launch_seed_regions w opts goal (x # seed_nodes) n) =
          evs @ fst (launch_seed_regions w opts goal seed_nodes n')"
        using x Some here Returns by (auto split: prod.splits)
      then show ?thesis using evs Cons.IH[OF rest] x by (simp add: seed_launches_def)
    next
      case (Raises ex)
      then show ?thesis using Cons.prems x Some here by simp
    next
      case Hangs
      then show ?thesis using Cons.prems x Some here by simp
    qed
  qed
qed

lemma normal_in_region_events:
  "launch_normal_in_region w opts region sg subnets i ips = (evs, r) \<Longrightarrow>
     \<forall>e \<in> set evs. \<not> is_launch True e"
proof (induction ips arbitrary: i evs r)
  case Nil
  then show ?case by auto
next
  case (Cons a ips)
  show ?case
  proof (cases "int i \<ge> opt_seed_count opts")
    case False
    then have "launch_normal_in_region w opts region sg subnets (Suc i) ips = (evs, r)"
      using Cons.prems by simp
    then show ?thesis by (rule Cons.IH)
  next
    case seed: True
    show ?thesis
    proof (cases "map_of (opt_taupage_amis opts) region")
      case None
      then show ?thesis using Cons.prems seed by auto
    next
      case (Some ami)
      show ?thesis
      proof (cases "subnets = []")
        case True
        then show ?thesis using Cons.prems Some seed by auto
      next
        case False
        show ?thesis
        proof (cases "launch_instance w region a (snd ami) (subnets ! (i mod length subnets)) sg False")
          case (Returns u)
          obtain evs' r' where rec:
            "launch_normal_in_region w opts region sg subnets (Suc i) ips = (evs', r')"
            by (cases "launch_normal_in_region w opts region sg subnets (Suc i) ips") auto
          have evs: "evs = Sleep 60 # LaunchInstance region a False # evs'"
            using Cons.prems Some False Returns rec seed by simp
          from Cons.IH[OF rec] show ?thesis unfolding evs by simp
        next
          case (Raises ex)
          then show ?thesis using Cons.prems Some False seed by auto
        next
          case Hangs
          then show ?thesis using Cons.prems Some False seed by auto
        qed
      qed
    qed
  qed
qed

lemma normal_in_region_no_seed:
  "e \<in> set (fst (launch_normal_in_region w opts region sg subnets i ips)) \<Longrightarrow>
     \<not> is_launch True e"
  using normal_in_region_events[of w opts region sg subnets i ips]
  by (cases "launch_normal_in_region w opts region sg subnets i ips") auto

lemma normal_regions_no_seed:
  "e \<in> set (fst (launch_normal_regions w opts node_ips)) \<Longrightarrow> \<not> is_launch True e"
proof (induction node_ips)
  case Nil
  then show ?case by simp
next
  case (Cons x node_ips)
  obtain region ips where x: "x = (region, ips)" by (cases x)
  show ?case
  proof (cases "map_of (opt_security_groups opts) region")
    case None
    then show ?thesis using Cons.prems x by simp
  next
    case (Some sg)
    let ?here = "launch_normal_in_region w opts region sg
        (dict_get_list (opt_subnets opts) region) 0 ips"
    obtain evs r where here: "?here = (evs, r)" by (cases ?here)
    have evs: "\<And>e. e \<in> set evs \<Longrightarrow> \<not> is_launch True e"
      using normal_in_region_no_seed[of _ w opts region sg
          "dict_get_list (opt_subnets opts) region" 0 ips] here by simp
    show ?thesis
    proof (cases r)
      case (Returns u)
      then have "e \<in> set evs \<or> e \<in> set (fst (launch_normal_regions w opts node_ips))"
        using Cons.prems x Some here by (auto split: prod.splits)
      then show ?thesis using evs Cons.IH by blast
    next
      case (Raises ex)
      then show ?thesis using Cons.prems x Some here evs by simp
    next
      case Hangs
      then show ?thesis using Cons.prems x Some here evs by simp
    qed
  qed
qed



section \<open>What each step of the run logs\<close>

lemma take_addresses_events:
  "take_addresses client region elastic n ips node_ips = (evs, node_ips', r) \<Longrightarrow>
     \<forall>e \<in> set evs. \<exists>allocation. e = AllocateAddress region allocation"
proof (induction ips arbitrary: n node_ips evs node_ips' r)
  case Nil
  then show ?case by simp
next
  case (Cons a ips)
  show ?case
  proof (cases elastic)
    case False
    then have "take_addresses client region elastic n ips
        (dict_append node_ips region
          \<lparr>PrivateIp = a, defaultIp = a, PublicIp = None, AllocationId = None\<rparr>) =
        (evs, node_ips', r)" using Cons.prems by simp
    then show ?thesis by (rule Cons.IH)
  next
    case True
    show ?thesis
    proof (cases "allocate_address client n")
      case (Inl e)
      then show ?thesis using Cons.prems True by simp
    next
      case (Inr pa)
      obtain public allocation where pa: "pa = (public, allocation)" by (cases pa)
      let ?d = "dict_append node_ips region
          \<lparr>PrivateIp = a, defaultIp = public, PublicIp = Some public,
           AllocationId = Some allocation\<rparr>"
      obtain evs' mid r' where rec:
        "take_addresses client region elastic (Suc n) ips ?d = (evs', mid, r')"
        by (cases "take_addresses client region elastic (Suc n) ips ?d") auto
      have evs: "evs = AllocateAddress region allocation # evs'"
        using Cons.prems True Inr pa rec by simp
      from Cons.IH[OF rec] show ?thesis unfolding evs by simp
    qed
  qed
qed

lemma allocate_events:
  "allocate_ip_addresses w region_subnets Q node_ips elastic = (evs, node_ips', r) \<Longrightarrow>
     \<forall>e \<in> set evs. \<exists>region allocation. e = AllocateAddress region allocation"
proof (induction region_subnets arbitrary: node_ips evs node_ips' r)
  case Nil
  then show ?case by simp
next
  case (Cons rs region_subnets)
  obtain region subnets where rs: "rs = (region, subnets)" by (cases rs)
  let ?gen = "generate_private_ip_addresses (iter_hosts w) (boto3_ec2 w region) subnets Q"
  obtain ips raised where gen: "?gen = (ips, raised)" by (cases ?gen)
  obtain evs1 mid r1 where took:
    "take_addresses (boto3_ec2 w region) region elastic 0 ips node_ips = (evs1, mid, r1)"
    by (cases "take_addresses (boto3_ec2 w region) region elastic 0 ips node_ips") auto
  have e1: "\<forall>e \<in> set evs1. \<exists>region allocation. e = AllocateAddress region allocation"
    using take_addresses_events[OF took] by blast
  show ?case
  proof (cases r1)
    case (Some ex)
    then have "evs = evs1" using Cons.prems rs gen took by simp
    then show ?thesis using e1 by simp
  next
    case None
    show ?thesis
    proof (cases raised)
      case (Some ex)
      then have "evs = evs1" using Cons.prems rs gen took None by simp
      then show ?thesis using e1 by simp
    next
      case no: None
      obtain evs2 fin r2 where rec:
        "allocate_ip_addresses w region_subnets Q mid elastic = (evs2, fin, r2)"
        by (cases "allocate_ip_addresses w region_subnets Q mid elastic") auto
      have "evs = evs1 @ evs2" using Cons.prems rs gen took None no rec by simp
      then show ?thesis using e1 Cons.IH[OF rec] by auto
    qed
  qed
qed

lemma upsert_records_events:
  "upsert_records w name zone zone_id node_ips = (evs, r) \<Longrightarrow>
     \<forall>e \<in> set evs. \<exists>region. e = UpsertRecords region"
proof (induction node_ips arbitrary: evs r)
  case Nil
  then show ?case by simp
next
  case (Cons x node_ips)
  obtain region ips where x: "x = (region, ips)" by (cases x)
  show ?case
  proof (cases "change_resource_record_sets w zone_id
      (''_'' @ name @ ''-'' @ region @ ''._tcp.'' @ zone) (make_dns_records region ips)")
    case (Some ex)
    then show ?thesis using Cons.prems x by simp
  next
    case None
    obtain evs' r' where rec: "upsert_records w name zone zone_id node_ips = (evs', r')"
      by (cases "upsert_records w name zone zone_id node_ips") auto
    have "evs = UpsertRecords region # evs'" using Cons.prems x None rec by simp
    then show ?thesis using Cons.IH[OF rec] by simp
  qed
qed

lemma setup_dns_events:
  "setup_dns w opts node_ips = (evs, r) \<Longrightarrow> \<forall>e \<in> set evs. \<exists>region. e = UpsertRecords region"
proof -
  assume run: "setup_dns w opts node_ips = (evs, r)"
  show ?thesis
  proof (cases "opt_hosted_zone opts")
    case None
    then show ?thesis using run by (simp add: setup_dns_def)
  next
    case (Some zone)
    show ?thesis
    proof (cases "zone = []")
      case True
      then show ?thesis using run Some by (simp add: setup_dns_def)
    next
      case False
      then have rec: "setup_dns_records w (opt_cluster_name opts) zone node_ips = (evs, r)"
        using run Some by (simp add: setup_dns_def)
      show ?thesis
      proof (cases "list_hosted_zones_by_name w zone")
        case (Inl ex)
        then show ?thesis using rec by (simp add: setup_dns_records_def)
      next
        case (Inr zones)
        show ?thesis
        proof (cases "fold (\<lambda>z found. if fst z = zone then Some z else found) zones None")
          case None
          then show ?thesis using rec Inr by (simp add: setup_dns_records_def)
        next
          case (Some z)
          then have "upsert_records w (opt_cluster_name opts) zone (snd z) node_ips = (evs, r)"
            using rec Inr by (simp add: setup_dns_records_def)
          then show ?thesis by (rule upsert_records_events)
        qed
      qed
    qed
  qed
qed

lemma setup_alarm_topics_events:
  "setup_alarm_topics w opts = Inr (evs, topics) \<Longrightarrow> \<forall>e \<in> set evs. e = SetupSnsTopics"
  by (auto simp: setup_alarm_topics_def split: if_splits sum.splits)


lemma setup_security_groups_from_events:
  "setup_security_groups_from w dmz name node_ips todo sgs = (evs, sgs', r) \<Longrightarrow>
     \<forall>e \<in> set evs. \<exists>region sg. e = CreateSecurityGroup region sg"
proof (induction todo arbitrary: sgs evs sgs' r)
  case Nil
  then show ?case by simp
next
  case (Cons x todo)
  obtain region ips where x: "x = (region, ips)" by (cases x)
  show ?case
    using Cons.prems Cons.IH unfolding x
    by (auto simp: Let_def split: sum.splits list.splits option.splits prod.splits if_splits)
qed

lemma delete_security_groups_events:
  "delete_security_groups w sgs = (evs, r) \<Longrightarrow>
     \<forall>e \<in> set evs. \<exists>region sg. e = DeleteSecurityGroup region sg"
  by (induction sgs arbitrary: evs r) (auto split: option.splits prod.splits)

lemma release_in_region_events:
  "release_addresses_in_region w region ips = (evs, r) \<Longrightarrow>
     \<forall>e \<in> set evs. \<exists>allocation. e = ReleaseAddress region allocation"
  by (induction ips arbitrary: evs r) (auto split: option.splits prod.splits)

lemma release_addresses_events:
  "release_addresses w node_ips = (evs, r) \<Longrightarrow>
     \<forall>e \<in> set evs. \<exists>region allocation. e = ReleaseAddress region allocation"
proof (induction node_ips arbitrary: evs r)
  case Nil
  then show ?case by simp
next
  case (Cons x node_ips)
  obtain region ips where x: "x = (region, ips)" by (cases x)
  obtain evs1 r1 where here: "release_addresses_in_region w region ips = (evs1, r1)"
    by (cases "release_addresses_in_region w region ips") auto
  note e1 = release_in_region_events[OF here]
  show ?case
  proof (cases r1)
    case (Some ex)
    then have "evs = evs1" using Cons.prems x here by simp
    then show ?thesis using e1 by auto
  next
    case None
    obtain evs2 r2 where rec: "release_addresses w node_ips = (evs2, r2)"
      by (cases "release_addresses w node_ips") auto
    have "evs = evs1 @ evs2" using Cons.prems x here None rec by simp
    then show ?thesis using e1 Cons.IH[OF rec] by auto
  qed
qed

lemma rollback_events:
  "rollback w dmz node_ips sgs = (evs, r) \<Longrightarrow> \<forall>e \<in> set evs. \<forall>b. \<not> is_launch b e"
proof -
  assume run: "rollback w dmz node_ips sgs = (evs, r)"
  obtain evs1 r1 where del: "delete_security_groups w sgs = (evs1, r1)"
    by (cases "delete_security_groups w sgs") auto
  obtain evs2 r2 where rel: "release_addresses w node_ips = (evs2, r2)"
    by (cases "release_addresses w node_ips") auto
  have "set evs \<subseteq> set evs1 \<union> set evs2"
    using run del rel by (auto simp: rollback_def split: option.splits if_splits)
  moreover have "\<forall>e \<in> set evs1. \<forall>b. \<not> is_launch b e"
    using delete_security_groups_events[OF del] by auto
  moreover have "\<forall>e \<in> set evs2. \<forall>b. \<not> is_launch b e"
    using release_addresses_events[OF rel] by auto
  ultimately show ?thesis by blast
qed


lemma launch_phases_shape:
  "\<exists>S N Y. fst (launch_phases w opts) = S @ N @ Y \<and>
     (\<forall>e \<in> set S. \<not> is_launch False e) \<and>
     (\<forall>e \<in> set N. \<not> is_launch True e) \<and>
     (\<forall>e \<in> set Y. \<forall>b. \<not> is_launch b e) \<and>
     (N \<noteq> [] \<longrightarrow> filter (is_launch True) S = seed_launches (opt_seed_nodes opts))"
proof -
  let ?goal = "opt_seed_count opts * int (length (opt_regions opts))"
  obtain S rs where seeds: "launch_seed_regions w opts ?goal (opt_seed_nodes opts) 0 = (S, rs)"
    by (cases "launch_seed_regions w opts ?goal (opt_seed_nodes opts) 0") auto
  obtain N rn where normal: "launch_normal_regions w opts (opt_node_ips opts) = (N, rn)"
    by (cases "launch_normal_regions w opts (opt_node_ips opts)") auto
  have S: "\<forall>e \<in> set S. \<not> is_launch False e"
    using seed_regions_no_normal[of _ w opts ?goal "opt_seed_nodes opts" 0] seeds by auto
  have N: "\<forall>e \<in> set N. \<not> is_launch True e"
    using normal_regions_no_seed[of _ w opts "opt_node_ips opts"] normal by auto
  show ?thesis
  proof (cases rs)
    case (Returns u)
    have all: "filter (is_launch True) S = seed_launches (opt_seed_nodes opts)"
      using seed_regions_returns[of w opts ?goal "opt_seed_nodes opts" 0 u] seeds Returns by simp
    have "\<exists>Y. fst (launch_phases w opts) = S @ N @ Y \<and> (\<forall>e \<in> set Y. \<forall>b. \<not> is_launch b e)"
      using seeds normal Returns
      by (cases rn) (simp_all add: launch_phases_def launch_seed_nodes_def launch_normal_nodes_def)
    then show ?thesis using S N all by blast
  next
    case (Raises ex)
    then have "fst (launch_phases w opts) = S @ [] @ []"
      using seeds by (simp add: launch_phases_def launch_seed_nodes_def)
    then show ?thesis using S by (intro exI[of _ S] exI[of _ "[]"]) simp
  next
    case Hangs
    then have "fst (launch_phases w opts) = S @ [] @ []"
      using seeds by (simp add: launch_phases_def launch_seed_nodes_def)
    then show ?thesis using S by (intro exI[of _ S] exI[of _ "[]"]) simp
  qed
qed

lemma ordered_trace:
  assumes A: "\<forall>e \<in> set A. \<not> is_launch False e"
    and N: "\<forall>e \<in> set N. \<not> is_launch True e"
    and B: "\<forall>e \<in> set B. \<forall>b. \<not> is_launch b e"
    and all: "N \<noteq> [] \<longrightarrow> filter (is_launch True) A = X"
  shows "filter (is_launch True) (dropWhile (\<lambda>e. \<not> is_launch False e) (A @ N @ B)) = [] \<and>
         ((\<exists>e \<in> set (A @ N @ B). is_launch False e) \<longrightarrow>
            filter (is_launch True) (takeWhile (\<lambda>e. \<not> is_launch False e) (A @ N @ B)) = X)"
proof -
  let ?P = "\<lambda>e. \<not> is_launch False e"
  have drop: "dropWhile ?P (A @ N @ B) = dropWhile ?P (N @ B)"
    using A by simp
  have take: "takeWhile ?P (A @ N @ B) = A @ takeWhile ?P (N @ B)"
    using A by simp
  have NB: "\<forall>e \<in> set (N @ B). \<not> is_launch True e" using N B by auto
  have "\<not> is_launch True e" if "e \<in> set (dropWhile ?P (N @ B))" for e
  proof -
    from that have "e \<in> set (N @ B)" by (rule set_dropWhileD)
    with NB show ?thesis by (rule bspec)
  qed
  then have first: "filter (is_launch True) (dropWhile ?P (A @ N @ B)) = []"
    unfolding drop by (simp add: filter_empty_conv)
  have "\<not> is_launch True e" if "e \<in> set (takeWhile ?P (N @ B))" for e
  proof -
    from that have "e \<in> set (N @ B)" by (rule set_takeWhileD[THEN conjunct1])
    with NB show ?thesis by (rule bspec)
  qed
  then have tk: "filter (is_launch True) (takeWhile ?P (A @ N @ B)) = filter (is_launch True) A"
    unfolding take by (simp add: filter_empty_conv)
  have second: "filter (is_launch True) (takeWhile ?P (A @ N @ B)) = X"
    if "\<exists>e \<in> set (A @ N @ B). is_launch False e"
  proof -
    from that A B have "\<exists>e \<in> set N. is_launch False e" by auto
    then have "N \<noteq> []" by auto
    with all tk show ?thesis by simp
  qed
  from first second show ?thesis by blast
qed


lemma two_phase_quiet:
  "\<forall>e \<in> set tr. \<forall>b. \<not> is_launch b e \<Longrightarrow> two_phase tr X"
  unfolding two_phase_def
  by (intro exI[of _ tr] exI[of _ "[]"]) simp

lemma two_phase_prepend:
  assumes "\<forall>e \<in> set pre. \<forall>b. \<not> is_launch b e" and "two_phase tr X"
  shows "two_phase (pre @ tr) X"
proof -
  from assms(2) obtain p S N Y where tr: "tr = p @ S @ N @ Y"
    and p: "\<forall>e \<in> set p. \<forall>b. \<not> is_launch b e"
    and rest: "\<forall>e \<in> set S. \<not> is_launch False e" "\<forall>e \<in> set N. \<not> is_launch True e"
      "\<forall>e \<in> set Y. \<forall>b. \<not> is_launch b e" "N \<noteq> [] \<longrightarrow> filter (is_launch True) S = X"
    unfolding two_phase_def by blast
  have "pre @ tr = (pre @ p) @ S @ N @ Y" using tr by simp
  moreover have "\<forall>e \<in> set (pre @ p). \<forall>b. \<not> is_launch b e" using assms(1) p by auto
  ultimately show ?thesis unfolding two_phase_def using rest by blast
qed

lemma two_phase_append:
  assumes "two_phase tr X" and "\<forall>e \<in> set Z. \<forall>b. \<not> is_launch b e"
  shows "two_phase (tr @ Z) X"
proof -
  from assms(1) obtain p S N Y where tr: "tr = p @ S @ N @ Y"
    and p: "\<forall>e \<in> set p. \<forall>b. \<not> is_launch b e"
    and rest: "\<forall>e \<in> set S. \<not> is_launch False e" "\<forall>e \<in> set N. \<not> is_launch True e"
      "N \<noteq> [] \<longrightarrow> filter (is_launch True) S = X"
    and Y: "\<forall>e \<in> set Y. \<forall>b. \<not> is_launch b e"
    unfolding two_phase_def by blast
  have "tr @ Z = p @ S @ N @ (Y @ Z)" using tr by simp
  moreover have "\<forall>e \<in> set (Y @ Z). \<forall>b. \<not> is_launch b e" using assms(2) Y by auto
  ultimately show ?thesis unfolding two_phase_def using p rest by blast
qed

lemma two_phase_launch_phases:
  "two_phase (fst (launch_phases w opts)) (seed_launches (opt_seed_nodes opts))"
proof -
  from launch_phases_shape[of w opts] obtain S N Y where
    shape: "fst (launch_phases w opts) = [] @ S @ N @ Y \<and>
      (\<forall>e \<in> set []. \<forall>b. \<not> is_launch b e) \<and>
      (\<forall>e \<in> set S. \<not> is_launch False e) \<and> (\<forall>e \<in> set N. \<not> is_launch True e) \<and>
      (\<forall>e \<in> set Y. \<forall>b. \<not> is_launch b e) \<and>
      (N \<noteq> [] \<longrightarrow> filter (is_launch True) S = seed_launches (opt_seed_nodes opts))"
    by auto
  show ?thesis unfolding two_phase_def
    by (rule exI[of _ "[]"], rule exI[of _ S], rule exI[of _ N], rule exI[of _ Y]) (rule shape)
qed

lemma two_phase_ordered:
  assumes "two_phase tr X"
  shows "filter (is_launch True) (dropWhile (\<lambda>e. \<not> is_launch False e) tr) = [] \<and>
         ((\<exists>e \<in> set tr. is_launch False e) \<longrightarrow>
            filter (is_launch True) (takeWhile (\<lambda>e. \<not> is_launch False e) tr) = X)"
proof -
  from assms obtain p S N Y where tr: "tr = p @ S @ N @ Y"
    and p: "\<forall>e \<in> set p. \<forall>b. \<not> is_launch b e"
    and S: "\<forall>e \<in> set S. \<not> is_launch False e" and N: "\<forall>e \<in> set N. \<not> is_launch True e"
    and Y: "\<forall>e \<in> set Y. \<forall>b. \<not> is_launch b e"
    and all: "N \<noteq> [] \<longrightarrow> filter (is_launch True) S = X"
    unfolding two_phase_def by blast
  have A: "\<forall>e \<in> set (p @ S). \<not> is_launch False e" using p S by auto
  have "filter (is_launch True) p = []" using p by (simp add: filter_empty_conv)
  then have all': "N \<noteq> [] \<longrightarrow> filter (is_launch True) (p @ S) = X" using all by simp
  have "tr = (p @ S) @ N @ Y" using tr by simp
  then show ?thesis using ordered_trace[OF A N Y all'] by simp
qed


lemma try_block_two_phase:
  "two_phase (trace (try_block w opts))
     (seed_launches (pick_seed_node_ips (topology (try_block w opts))
        (min (opt_cluster_size opts) 3)))"
    (is "two_phase _ (?X (try_block w opts))")
proof (cases "find_taupage_amis w (opt_regions opts)")
  case (Inl ex)
  then have "trace (try_block w opts) = []" by (simp add: try_block_def)
  then show ?thesis by (simp add: two_phase_quiet)
next
  case amis: (Inr taupage_amis)
  let ?prefix = "if opt_use_dmz opts then ''dmz-'' else ''internal-''"
  show ?thesis
  proof (cases "get_subnets w ?prefix (opt_regions opts)")
    case (Inl ex)
    then have "trace (try_block w opts) = []" using amis by (simp add: try_block_def)
    then show ?thesis by (simp add: two_phase_quiet)
  next
    case subs: (Inr subnets)
    obtain ev1 node_ips r1 where alloc:
      "allocate_ip_addresses w subnets (opt_cluster_size opts) [] (opt_use_dmz opts) =
         (ev1, node_ips, r1)"
      by (cases "allocate_ip_addresses w subnets (opt_cluster_size opts) [] (opt_use_dmz opts)")
         auto
    have q1: "\<forall>e \<in> set ev1. \<forall>b. \<not> is_launch b e" using allocate_events[OF alloc] by auto
    show ?thesis
    proof (cases r1)
      case (Some ex)
      then have tr: "trace (try_block w opts) = ev1"
        using amis subs alloc by (simp add: try_block_def)
      show ?thesis unfolding tr using q1 by (rule two_phase_quiet)
    next
      case a_ok: None
      show ?thesis
      proof (cases "setup_alarm_topics w opts")
        case (Inl ex)
        then have tr: "trace (try_block w opts) = ev1"
          using amis subs alloc a_ok by (simp add: try_block_def)
        show ?thesis unfolding tr using q1 by (rule two_phase_quiet)
      next
        case (Inr et)
        obtain ev2 alarm_topics where et: "et = (ev2, alarm_topics)" by (cases et)
        have sns: "setup_alarm_topics w opts = Inr (ev2, alarm_topics)" using Inr et by simp
        have q2: "\<forall>e \<in> set ev2. \<forall>b. \<not> is_launch b e"
          using setup_alarm_topics_events[OF sns] by auto
        obtain ev3 r3 where dns: "setup_dns w opts node_ips = (ev3, r3)"
          by (cases "setup_dns w opts node_ips") auto
        have q3: "\<forall>e \<in> set ev3. \<forall>b. \<not> is_launch b e" using setup_dns_events[OF dns] by auto
        show ?thesis
        proof (cases r3)
          case (Some ex)
          then have tr: "trace (try_block w opts) = ev1 @ ev2 @ ev3"
            using amis subs alloc a_ok sns dns by (simp add: try_block_def)
          have "\<forall>e \<in> set (ev1 @ ev2 @ ev3). \<forall>b. \<not> is_launch b e" using q1 q2 q3 by auto
          then show ?thesis unfolding tr by (rule two_phase_quiet)
        next
          case d_ok: None
          obtain ev4 security_groups r4 where sg:
            "setup_security_groups w (opt_use_dmz opts) (opt_cluster_name opts) node_ips [] =
               (ev4, security_groups, r4)"
            by (cases "setup_security_groups w (opt_use_dmz opts) (opt_cluster_name opts)
                  node_ips []") auto
          have q4: "\<forall>e \<in> set ev4. \<forall>b. \<not> is_launch b e"
            using setup_security_groups_from_events[of w "opt_use_dmz opts"
                "opt_cluster_name opts" node_ips node_ips "[]" ev4 security_groups r4] sg
            by (auto simp: setup_security_groups_def)
          have pre: "\<forall>e \<in> set (ev1 @ ev2 @ ev3 @ ev4). \<forall>b. \<not> is_launch b e"
            using q1 q2 q3 q4 by auto
          show ?thesis
          proof (cases r4)
            case (Some ex)
            then have tr: "trace (try_block w opts) = ev1 @ ev2 @ ev3 @ ev4"
              using amis subs alloc a_ok sns dns d_ok sg by (simp add: try_block_def)
            show ?thesis unfolding tr using pre by (rule two_phase_quiet)
          next
            case s_ok: None
            show ?thesis
            proof (cases "ensure_instance_profile w (opt_cluster_name opts)")
              case (Some ex)
              then have tr: "trace (try_block w opts) = ev1 @ ev2 @ ev3 @ ev4"
                using amis subs alloc a_ok sns dns d_ok sg s_ok
                by (simp add: try_block_def Let_def)
              show ?thesis unfolding tr using pre by (rule two_phase_quiet)
            next
              case p_ok: None
              let ?o = "opts\<lparr>opt_seed_count := min (opt_cluster_size opts) 3,
                  opt_seed_nodes := pick_seed_node_ips node_ips (min (opt_cluster_size opts) 3),
                  opt_node_ips := node_ips, opt_security_groups := security_groups,
                  opt_taupage_amis := taupage_amis, opt_subnets := subnets\<rparr>"
              have tr: "trace (try_block w opts) =
                  (ev1 @ ev2 @ ev3 @ ev4) @ fst (launch_phases w ?o)"
                and top: "topology (try_block w opts) = node_ips"
                using amis subs alloc a_ok sns dns d_ok sg s_ok p_ok
                by (simp_all add: try_block_def Let_def split: prod.splits)
              have "two_phase (fst (launch_phases w ?o)) (seed_launches (opt_seed_nodes ?o))"
                by (rule two_phase_launch_phases)
              then have "two_phase (fst (launch_phases w ?o)) (?X (try_block w opts))"
                using top by simp
              with pre show ?thesis unfolding tr by (rule two_phase_prepend)
            qed
          qed
        qed
      qed
    qed
  qed
qed

lemma create_cluster_two_phase:
  "two_phase (trace (create_cluster w opts))
     (seed_launches (pick_seed_node_ips (topology (create_cluster w opts))
        (min (opt_cluster_size opts) 3)))"
proof (cases "before_try w")
  case (Some ex)
  then have tr: "trace (create_cluster w opts) = []" by (simp add: create_cluster_def)
  show ?thesis unfolding tr by (rule two_phase_quiet) simp
next
  case None
  note inner = try_block_two_phase[of w opts]
  show ?thesis
  proof (cases "result (try_block w opts)")
    case (Returns u)
    then have "create_cluster w opts = try_block w opts"
      using None by (simp add: create_cluster_def Let_def)
    then show ?thesis using inner by simp
  next
    case Hangs
    then have "create_cluster w opts = try_block w opts"
      using None by (simp add: create_cluster_def Let_def)
    then show ?thesis using inner by simp
  next
    case (Raises ex)
    obtain evs r where undo: "rollback w (opt_use_dmz opts) (topology (try_block w opts))
        (groups (try_block w opts)) = (evs, r)"
      by (cases "rollback w (opt_use_dmz opts) (topology (try_block w opts))
            (groups (try_block w opts))") auto
    have quiet: "\<forall>e \<in> set (PrintFailureMessage # evs). \<forall>b. \<not> is_launch b e"
      using rollback_events[OF undo] by simp
    have tr: "trace (create_cluster w opts) =
        trace (try_block w opts) @ PrintFailureMessage # evs"
      and top: "topology (create_cluster w opts) = topology (try_block w opts)"
      using None Raises undo by (cases r; simp add: create_cluster_def Let_def)+
    show ?thesis unfolding tr top using inner quiet by (rule two_phase_append)
  qed
qed

section \<open>Claims about the launch sequencer\<close>

text \<open>
  Claim C2. In the trace of every run of \<open>create_cluster\<close>, no seed node is launched at
  or after the first launch of a normal node; and when a normal node is launched at all,
  the seed launches before the first of them are the launches of all seed nodes of all
  regions of the topology, region by region in order, the seeds being the first
  \<open>min(cluster_size, 3)\<close> addresses of each region.
\<close>

theorem seeds_before_normal:
  "filter (is_launch True)
     (dropWhile (\<lambda>e. \<not> is_launch False e) (trace (create_cluster w opts))) = [] \<and>
   ((\<exists>e \<in> set (trace (create_cluster w opts)). is_launch False e) \<longrightarrow>
      filter (is_launch True)
        (takeWhile (\<lambda>e. \<not> is_launch False e) (trace (create_cluster w opts))) =
      seed_launches (pick_seed_node_ips (topology (create_cluster w opts))
        (min (opt_cluster_size opts) 3)))"
  using create_cluster_two_phase[of w opts] by (rule two_phase_ordered)

theorem seeds_before_normal_witness:
  "(\<exists>e \<in> set (trace (create_cluster example_world (example_options\<lparr>opt_cluster_size := 4\<rparr>))).
      is_launch False e) \<and>
   filter (is_launch True)
     (takeWhile (\<lambda>e. \<not> is_launch False e)
        (trace (create_cluster example_world (example_options\<lparr>opt_cluster_size := 4\<rparr>)))) =
   seed_launches (pick_seed_node_ips
     (topology (create_cluster example_world (example_options\<lparr>opt_cluster_size := 4\<rparr>)))
     (min (opt_cluster_size (example_options\<lparr>opt_cluster_size := 4\<rparr>)) 3))"
proof -
  let ?run = "create_cluster example_world (example_options\<lparr>opt_cluster_size := 4\<rparr>)"
  have normal: "\<exists>e \<in> set (trace ?run). is_launch False e" by code_simp
  from seeds_before_normal[of example_world "example_options\<lparr>opt_cluster_size := 4\<rparr>"]
  have "(\<exists>e \<in> set (trace ?run). is_launch False e) \<longrightarrow>
      filter (is_launch True) (takeWhile (\<lambda>e. \<not> is_launch False e) (trace ?run)) =
      seed_launches (pick_seed_node_ips (topology ?run)
        (min (opt_cluster_size (example_options\<lparr>opt_cluster_size := 4\<rparr>)) 3))"
    by (rule conjunct2)
  from this normal have "filter (is_launch True)
      (takeWhile (\<lambda>e. \<not> is_launch False e) (trace ?run)) =
      seed_launches (pick_seed_node_ips (topology ?run)
        (min (opt_cluster_size (example_options\<lparr>opt_cluster_size := 4\<rparr>)) 3))"
    by (rule mp)
  with normal show ?thesis by (rule conjI)
qed



section \<open>Claims about the rollback\<close>

















section \<open>Claims about failed lookups\<close>

lemma fold_zone_absent:
  "\<forall>z \<in> set zones. fst z \<noteq> name \<Longrightarrow>
     fold (\<lambda>z zone. if fst z = name then Some z else zone) zones acc = acc"
  by (induction zones arbitrary: acc) auto

lemma rollback_no_groups:
  "rollback w dmz node_ips [] = (if dmz then release_addresses w node_ips else ([], None))"
  by (cases "release_addresses w node_ips") (simp add: rollback_def)

lemma image_missing:
  assumes "before_try w = None" and "find_taupage_amis w (opt_regions opts) = Inl e"
  shows "create_cluster w opts =
         \<lparr>trace = [PrintFailureMessage], topology = [], groups = [], result = Raises e\<rparr>"
proof -
  have "try_block w opts = \<lparr>trace = [], topology = [], groups = [], result = Raises e\<rparr>"
    using assms(2) by (simp add: try_block_def)
  then show ?thesis
    using assms(1) by (simp add: create_cluster_def Let_def rollback_def)
qed

lemma zone_missing:
  assumes pre: "before_try w = None"
    and amis: "find_taupage_amis w (opt_regions opts) = Inr amis"
    and subs: "get_subnets w (if opt_use_dmz opts then ''dmz-'' else ''internal-'')
                 (opt_regions opts) = Inr subnets"
    and alloc: "allocate_ip_addresses w subnets (opt_cluster_size opts) [] (opt_use_dmz opts) =
                 (ev1, node_ips, None)"
    and sns: "setup_alarm_topics w opts = Inr (ev2, topics)"
    and zone: "opt_hosted_zone opts = Some zone" "zone \<noteq> []"
    and listed: "list_hosted_zones_by_name w zone = Inr zones"
    and absent: "\<forall>z \<in> set zones. fst z \<noteq> zone"
  shows "topology (create_cluster w opts) = node_ips \<and>
         groups (create_cluster w opts) = [] \<and>
         trace (create_cluster w opts) =
           ev1 @ ev2 @ PrintFailureMessage #
           (if opt_use_dmz opts then fst (release_addresses w node_ips) else []) \<and>
         (\<not> opt_use_dmz opts \<or> snd (release_addresses w node_ips) = None \<longrightarrow>
            result (create_cluster w opts) =
              Raises (Exception (''Failed to find Hosted Zone '' @ zone)))"
proof -
  let ?e = "Exception (''Failed to find Hosted Zone '' @ zone)"
  have dns: "setup_dns w opts node_ips = ([], Some ?e)"
    using zone listed fold_zone_absent[OF absent, of None]
    by (simp add: setup_dns_def setup_dns_records_def)
  have block: "try_block w opts =
      \<lparr>trace = ev1 @ ev2, topology = node_ips, groups = [], result = Raises ?e\<rparr>"
    using amis subs alloc sns dns by (simp add: try_block_def)
  obtain evs r where rel: "release_addresses w node_ips = (evs, r)"
    by (cases "release_addresses w node_ips") auto
  show ?thesis
  proof (cases "opt_use_dmz opts")
    case False
    then show ?thesis
      using pre block by (simp add: create_cluster_def Let_def rollback_no_groups)
  next
    case True
    then show ?thesis
      using pre block rel
      by (cases r) (simp_all add: create_cluster_def Let_def rollback_no_groups)
  qed
qed


text \<open>
  Claim C9, as stated, fails for the DNS zone: \<open>setup_dns_records\<close> runs after
  \<open>allocate_ip_addresses\<close>. Here, with \<open>use_dmz\<close>, an Elastic IP has been allocated
  when the zone is found missing, and the rollback releases it.
\<close>

theorem zone_missing_counterexample:
  "create_cluster example_world
     (example_options\<lparr>opt_regions := [''us-east-1''], opt_use_dmz := True,
        opt_hosted_zone := Some ''example.org.''\<rparr>) =
     \<lparr>trace =
        [AllocateAddress ''us-east-1'' ''eipalloc-1'',
         PrintFailureMessage,
         ReleaseAddress ''us-east-1'' ''eipalloc-1''],
      topology =
        [(''us-east-1'',
          [\<lparr>PrivateIp = ''10.0.1.11'', defaultIp = ''52.0.0.1'', PublicIp = Some ''52.0.0.1'',
            AllocationId = Some ''eipalloc-1''\<rparr>])],
      groups = [],
      result = Raises (Exception ''Failed to find Hosted Zone example.org.'')\<rparr>"
  by code_simp

text \<open>
  Claim C9, amended. When the image lookup fails, the run ends in that exception with
  nothing allocated or created, and the rollback issues no call: the trace is the failure
  message alone. When the configured DNS zone is not among the listed zones, the
  addresses are already allocated and the alarm topics set up; no security group has
  been created and none is deleted; the rollback releases the recorded addresses with
  \<open>use_dmz\<close> and issues nothing without it; and the run ends in the exception of the
  missing zone, unless a release raises.
\<close>

theorem resolution_failure:
  "(before_try w = None \<longrightarrow> find_taupage_amis w (opt_regions opts) = Inl e \<longrightarrow>
      create_cluster w opts =
        \<lparr>trace = [PrintFailureMessage], topology = [], groups = [], result = Raises e\<rparr>) \<and>
   (before_try w' = None \<longrightarrow>
    find_taupage_amis w' (opt_regions opts') = Inr amis \<longrightarrow>
    get_subnets w' (if opt_use_dmz opts' then ''dmz-'' else ''internal-'') (opt_regions opts') =
      Inr subnets \<longrightarrow>
    allocate_ip_addresses w' subnets (opt_cluster_size opts') [] (opt_use_dmz opts') =
      (ev1, node_ips, None) \<longrightarrow>
    setup_alarm_topics w' opts' = Inr (ev2, topics) \<longrightarrow>
    opt_hosted_zone opts' = Some zone \<longrightarrow> zone \<noteq> [] \<longrightarrow>
    list_hosted_zones_by_name w' zone = Inr zones \<longrightarrow>
    (\<forall>z \<in> set zones. fst z \<noteq> zone) \<longrightarrow>
      topology (create_cluster w' opts') = node_ips \<and>
      groups (create_cluster w' opts') = [] \<and>
      trace (create_cluster w' opts') =
        ev1 @ ev2 @ PrintFailureMessage #
        (if opt_use_dmz opts' then fst (release_addresses w' node_ips) else []) \<and>
      (\<not> opt_use_dmz opts' \<or> snd (release_addresses w' node_ips) = None \<longrightarrow>
         result (create_cluster w' opts') =
           Raises (Exception (''Failed to find Hosted Zone '' @ zone))))"
proof (rule conjI)
  show "before_try w = None \<longrightarrow> find_taupage_amis w (opt_regions opts) = Inl e \<longrightarrow>
      create_cluster w opts =
        \<lparr>trace = [PrintFailureMessage], topology = [], groups = [], result = Raises e\<rparr>"
    by (intro impI) (rule image_missing)
next
  show "before_try w' = None \<longrightarrow>
    find_taupage_amis w' (opt_regions opts') = Inr amis \<longrightarrow>
    get_subnets w' (if opt_use_dmz opts' then ''dmz-'' else ''internal-'') (opt_regions opts') =
      Inr subnets \<longrightarrow>
    allocate_ip_addresses w' subnets (opt_cluster_size opts') [] (opt_use_dmz opts') =
      (ev1, node_ips, None) \<longrightarrow>
    setup_alarm_topics w' opts' = Inr (ev2, topics) \<longrightarrow>
    opt_hosted_zone opts' = Some zone \<longrightarrow> zone \<noteq> [] \<longrightarrow>
    list_hosted_zones_by_name w' zone = Inr zones \<longrightarrow>
    (\<forall>z \<in> set zones. fst z \<noteq> zone) \<longrightarrow>
      topology (create_cluster w' opts') = node_ips \<and>
      groups (create_cluster w' opts') = [] \<and>
      trace (create_cluster w' opts') =
        ev1 @ ev2 @ PrintFailureMessage #
        (if opt_use_dmz opts' then fst (release_addresses w' node_ips) else []) \<and>
      (\<not> opt_use_dmz opts' \<or> snd (release_addresses w' node_ips) = None \<longrightarrow>
         result (create_cluster w' opts') =
           Raises (Exception (''Failed to find Hosted Zone '' @ zone)))"
    by (intro impI) (rule zone_missing; assumption)
qed

theorem resolution_failure_witness:
  "before_try imageless_world = None \<and>
   find_taupage_amis imageless_world (opt_regions example_options) =
     Inl (Exception ''No Taupage AMI found'') \<and>
   create_cluster imageless_world example_options =
     \<lparr>trace = [PrintFailureMessage], topology = [], groups = [],
      result = Raises (Exception ''No Taupage AMI found'')\<rparr> \<and>
   before_try example_world = None \<and>
   find_taupage_amis example_world [''us-east-1''] =
     Inr [(''us-east-1'', (''Taupage-AMI-1'', ''ami-1''))] \<and>
   get_subnets example_world ''dmz-'' [''us-east-1''] = Inr [(''us-east-1'', [subnet_d])] \<and>
   allocate_ip_addresses example_world [(''us-east-1'', [subnet_d])] 1 [] True =
     ([AllocateAddress ''us-east-1'' ''eipalloc-1''],
      [(''us-east-1'',
        [\<lparr>PrivateIp = ''10.0.1.11'', defaultIp = ''52.0.0.1'', PublicIp = Some ''52.0.0.1'',
          AllocationId = Some ''eipalloc-1''\<rparr>])],
      None) \<and>
   list_hosted_zones_by_name example_world ''example.org.'' = Inr [] \<and>
   groups (create_cluster example_world
     (example_options\<lparr>opt_regions := [''us-east-1''], opt_use_dmz := True,
        opt_hosted_zone := Some ''example.org.''\<rparr>)) = [] \<and>
   trace (create_cluster example_world
     (example_options\<lparr>opt_regions := [''us-east-1''], opt_use_dmz := True,
        opt_hosted_zone := Some ''example.org.''\<rparr>)) =
     [AllocateAddress ''us-east-1'' ''eipalloc-1'', PrintFailureMessage,
      ReleaseAddress ''us-east-1'' ''eipalloc-1'']"
proof -
  let ?o = "example_options\<lparr>opt_regions := [''us-east-1''], opt_use_dmz := True,
        opt_hosted_zone := Some ''example.org.''\<rparr>"
  let ?node_ips = "[(''us-east-1'',
        [\<lparr>PrivateIp = ''10.0.1.11'', defaultIp = ''52.0.0.1'', PublicIp = Some ''52.0.0.1'',
          AllocationId = Some ''eipalloc-1''\<rparr>])]"
  have p1: "before_try imageless_world = None" by code_simp
  have i1: "find_taupage_amis imageless_world (opt_regions example_options) =
      Inl (Exception ''No Taupage AMI found'')" by code_simp
  have p2: "before_try example_world = None" by code_simp
  have i2: "find_taupage_amis example_world (opt_regions ?o) =
      Inr [(''us-east-1'', (''Taupage-AMI-1'', ''ami-1''))]" by code_simp
  have s2: "get_subnets example_world (if opt_use_dmz ?o then ''dmz-'' else ''internal-'')
      (opt_regions ?o) = Inr [(''us-east-1'', [subnet_d])]" by code_simp
  have a2: "allocate_ip_addresses example_world [(''us-east-1'', [subnet_d])]
      (opt_cluster_size ?o) [] (opt_use_dmz ?o) =
      ([AllocateAddress ''us-east-1'' ''eipalloc-1''], ?node_ips, None)" by code_simp
  have t2: "setup_alarm_topics example_world ?o = Inr ([], [])" by code_simp
  have z2: "opt_hosted_zone ?o = Some ''example.org.''" "''example.org.'' \<noteq> []" by simp_all
  have l2: "list_hosted_zones_by_name example_world ''example.org.'' = Inr []" by code_simp
  have n2: "\<forall>z \<in> set ([] :: (string \<times> string) list). fst z \<noteq> ''example.org.''" by simp
  have dmz: "opt_use_dmz ?o" by simp
  have rel: "release_addresses example_world ?node_ips =
      ([ReleaseAddress ''us-east-1'' ''eipalloc-1''], None)" by code_simp
  note claim = resolution_failure[of imageless_world example_options
      "Exception ''No Taupage AMI found''" example_world ?o
      "[(''us-east-1'', (''Taupage-AMI-1'', ''ami-1''))]" "[(''us-east-1'', [subnet_d])]"
      "[AllocateAddress ''us-east-1'' ''eipalloc-1'']" ?node_ips "[]" "[]" "''example.org.''" "[]"]
  from claim p1 i1 have first: "create_cluster imageless_world example_options =
      \<lparr>trace = [PrintFailureMessage], topology = [], groups = [],
       result = Raises (Exception ''No Taupage AMI found'')\<rparr>"
    by (elim conjE) (rule mp[OF mp])
  from claim have second: "before_try example_world = None \<longrightarrow>
    find_taupage_amis example_world (opt_regions ?o) =
      Inr [(''us-east-1'', (''Taupage-AMI-1'', ''ami-1''))] \<longrightarrow>
    get_subnets example_world (if opt_use_dmz ?o then ''dmz-'' else ''internal-'')
      (opt_regions ?o) = Inr [(''us-east-1'', [subnet_d])] \<longrightarrow>
    allocate_ip_addresses example_world [(''us-east-1'', [subnet_d])] (opt_cluster_size ?o) []
      (opt_use_dmz ?o) = ([AllocateAddress ''us-east-1'' ''eipalloc-1''], ?node_ips, None) \<longrightarrow>
    setup_alarm_topics example_world ?o = Inr ([], []) \<longrightarrow>
    opt_hosted_zone ?o = Some ''example.org.'' \<longrightarrow> ''example.org.'' \<noteq> [] \<longrightarrow>
    list_hosted_zones_by_name example_world ''example.org.'' = Inr [] \<longrightarrow>
    (\<forall>z \<in> set ([] :: (string \<times> string) list). fst z \<noteq> ''example.org.'') \<longrightarrow>
      topology (create_cluster example_world ?o) = ?node_ips \<and>
      groups (create_cluster example_world ?o) = [] \<and>
      trace (create_cluster example_world ?o) =
        [AllocateAddress ''us-east-1'' ''eipalloc-1''] @ [] @ PrintFailureMessage #
        (if opt_use_dmz ?o then fst (release_addresses example_world ?node_ips) else []) \<and>
      (\<not> opt_use_dmz ?o \<or> snd (release_addresses example_world ?node_ips) = None \<longrightarrow>
         result (create_cluster example_world ?o) =
           Raises (Exception (''Failed to find Hosted Zone '' @ ''example.org.'')))"
    by (rule conjunct2)
  from second p2 i2 s2 a2 t2 z2 l2 n2
  have concl: "topology (create_cluster example_world ?o) = ?node_ips \<and>
      groups (create_cluster example_world ?o) = [] \<and>
      trace (create_cluster example_world ?o) =
        [AllocateAddress ''us-east-1'' ''eipalloc-1''] @ [] @ PrintFailureMessage #
        (if opt_use_dmz ?o then fst (release_addresses example_world ?node_ips) else []) \<and>
      (\<not> opt_use_dmz ?o \<or> snd (release_addresses example_world ?node_ips) = None \<longrightarrow>
         result (create_cluster example_world ?o) =
           Raises (Exception (''Failed to find Hosted Zone '' @ ''example.org.'')))"
    by (rule mp[OF mp[OF mp[OF mp[OF mp[OF mp[OF mp[OF mp[OF mp]]]]]]]])
  then have g: "groups (create_cluster example_world ?o) = []"
    and tr: "trace (create_cluster example_world ?o) =
      [AllocateAddress ''us-east-1'' ''eipalloc-1'', PrintFailureMessage,
       ReleaseAddress ''us-east-1'' ''eipalloc-1'']"
    using rel by simp_all
  have i2': "find_taupage_amis example_world [''us-east-1''] =
      Inr [(''us-east-1'', (''Taupage-AMI-1'', ''ami-1''))]" using i2 by simp
  have s2': "get_subnets example_world ''dmz-'' [''us-east-1''] =
      Inr [(''us-east-1'', [subnet_d])]" using s2 by simp
  have a2': "allocate_ip_addresses example_world [(''us-east-1'', [subnet_d])] 1 [] True =
      ([AllocateAddress ''us-east-1'' ''eipalloc-1''], ?node_ips, None)"
    using a2 by (simp add: example_options_def)
  from p1 i1 first p2 i2' s2' a2' l2 g tr show ?thesis by (intro conjI)
qed



section \<open>A region without matching subnets\<close>

text \<open>
  Claim C10. \<open>get_subnets\<close> gives a region a key only when it appends a subnet, and
  \<open>allocate_ip_addresses\<close> iterates over the keys of that dictionary. With the regions
  \<open>eu-west-1\<close> and \<open>us-east-1\<close> requested, cluster size 1 and no \<open>internal-\<close> subnet in
  \<open>us-east-1\<close>, the run returns normally, and the topology has one address for
  \<open>eu-west-1\<close> and no entry for \<open>us-east-1\<close>.
\<close>

theorem missing_region_dropped:
  "get_subnets example_world ''internal-'' [''eu-west-1'', ''us-east-1''] =
     Inr [(''eu-west-1'', [subnet_a, subnet_b])] \<and>
   topology (create_cluster example_world
     (example_options\<lparr>opt_regions := [''eu-west-1'', ''us-east-1'']\<rparr>)) =
     [(''eu-west-1'',
       [\<lparr>PrivateIp = ''10.0.0.12'', defaultIp = ''10.0.0.12'', PublicIp = None,
         AllocationId = None\<rparr>])] \<and>
   map_of (topology (create_cluster example_world
     (example_options\<lparr>opt_regions := [''eu-west-1'', ''us-east-1'']\<rparr>))) ''us-east-1'' = None \<and>
   opt_cluster_size (example_options\<lparr>opt_regions := [''eu-west-1'', ''us-east-1'']\<rparr>) = 1 \<and>
   result (create_cluster example_world
     (example_options\<lparr>opt_regions := [''eu-west-1'', ''us-east-1'']\<rparr>)) = Returns ()"
  by code_simp

text \<open>
  Claim C7. \<open>launch_seed_nodes\<close> sleeps after a seed launch while fewer seeds than
  \<open>seed_count * len(regions)\<close> have been launched. On the same input the only seed is
  launched in \<open>eu-west-1\<close>, the count 1 stays below 1 * 2, and the run sleeps sixty
  seconds after its last seed launch; with \<open>eu-west-1\<close> alone it does not.
\<close>

theorem sleep_after_last_seed:
  "trace (create_cluster example_world
     (example_options\<lparr>opt_regions := [''eu-west-1'', ''us-east-1'']\<rparr>)) =
     [CreateSecurityGroup ''eu-west-1'' ''sg-1'',
      LaunchInstance ''eu-west-1''
        \<lparr>PrivateIp = ''10.0.0.12'', defaultIp = ''10.0.0.12'', PublicIp = None,
          AllocationId = None\<rparr> True,
      Sleep 60,
      PrintSuccessMessage] \<and>
   trace (create_cluster example_world (example_options\<lparr>opt_regions := [''eu-west-1'']\<rparr>)) =
     [CreateSecurityGroup ''eu-west-1'' ''sg-1'',
      LaunchInstance ''eu-west-1''
        \<lparr>PrivateIp = ''10.0.0.12'', defaultIp = ''10.0.0.12'', PublicIp = None,
          AllocationId = None\<rparr> True,
      PrintSuccessMessage]"
  by code_simp


end
